theory Spec2Isabelle
  imports Main "HOL-Library.Word"
begin

unbundle bit_operations_syntax

section \<open>Floating-point values and the binary record codec\<close>

text \<open>
  The sequences of \<^verbatim>\<open>hydpy/core/sequencetools.py\<close> hold Python floats and numpy arrays
  of dtype float.  Nothing below computes with these numbers: they are stored, copied,
  packed into bytes and unpacked again.  A float is therefore modelled by its IEEE-754
  bit pattern, a 64-bit word, so that "bit-identical" is plain equality.
\<close>

type_synonym f64 = "64 word"
type_synonym byte = "8 word"

text \<open>The three float constants that occur in the source, as bit patterns.\<close>

definition nan :: f64 where
  "nan = 0x7FF8000000000000"

definition zero :: f64 where
  "zero = 0"

definition one :: f64 where
  "one = 0x3FF0000000000000"

text \<open>
  \<^verbatim>\<open>struct.pack('d', x)\<close> in native mode on a little-endian machine: the eight bytes
  of the bit pattern, least significant byte first.  \<^verbatim>\<open>struct.unpack\<close> reads them back.
\<close>

definition pack_d :: "f64 \<Rightarrow> byte list" where
  "pack_d x = map (\<lambda>k. ucast (drop_bit (8 * k) x)) [0..<8]"

fun unpack_d :: "byte list \<Rightarrow> f64" where
  "unpack_d [] = 0"
| "unpack_d (b # bs) = ucast b OR push_bit 8 (unpack_d bs)"

text \<open>\<^verbatim>\<open>struct.pack(n*'d', *xs)\<close> and \<^verbatim>\<open>ndarray.tofile\<close>: the records one after another.\<close>

definition pack_all :: "f64 list \<Rightarrow> byte list" where
  "pack_all xs = concat (map pack_d xs)"

text \<open>\<^verbatim>\<open>struct.unpack(n*'d', raw)\<close> for a \<open>raw\<close> of exactly \<open>8 * n\<close> bytes.\<close>

fun unpack_all :: "nat \<Rightarrow> byte list \<Rightarrow> f64 list" where
  "unpack_all 0 bs = []"
| "unpack_all (Suc n) bs = unpack_d (take 8 bs) # unpack_all n (drop 8 bs)"

section \<open>Values, arrays and errors\<close>

text \<open>
  A numpy array is its shape and its elements in row-major order.  The live value of
  a sequence is a float (0-dimensional sequences) or an array.
\<close>

datatype ndarray = NDArray (shape: "nat list") (flat: "f64 list")

datatype pyvalue = Float f64 | Array ndarray

datatype reason =
    ShapeOfExternalFile | StepSize | NotASubset | NoInternalData | NoRamArray | NoValues

datatype error =
    AttributeError | TypeError | ValueError | IndexError | StructError
  | IOError | OSError | NotImplementedError | RuntimeError reason

text \<open>Python indexing of an axis of length \<open>n\<close>: negative indices count from the end.\<close>

definition py_index :: "nat \<Rightarrow> int \<Rightarrow> error + nat" where
  "py_index n i =
     (if 0 \<le> i \<and> i < int n then Inr (nat i)
      else if - int n \<le> i \<and> i < 0 then Inr (nat (int n + i))
      else Inl IndexError)"

text \<open>
  \<^verbatim>\<open>array[idx]\<close> on the first axis: a float for a 1-dimensional array, the row otherwise.
\<close>

definition getitem :: "ndarray \<Rightarrow> int \<Rightarrow> error + pyvalue" where
  "getitem a idx =
     (case shape a of
        [] \<Rightarrow> Inl IndexError
      | t # rest \<Rightarrow>
          (case py_index t idx of
             Inl e \<Rightarrow> Inl e
           | Inr i \<Rightarrow>
               (let rowlen = prod_list rest;
                    row = take rowlen (drop (i * rowlen) (flat a))
                in if rest = [] then Inr (Float (flat a ! i))
                   else Inr (Array (NDArray rest row)))))"

text \<open>
  \<^verbatim>\<open>array[idx] = actual\<close>: a float fills the row, an array of the row's shape is copied
  into it.  numpy also accepts some arrays of other shapes (broadcasting); the model
  raises for every array whose shape is not the row's, and the theorems below are about
  sequences whose value has the shape registered for the sequence.
\<close>

definition setitem :: "ndarray \<Rightarrow> int \<Rightarrow> pyvalue \<Rightarrow> error + ndarray" where
  "setitem a idx actual =
     (case shape a of
        [] \<Rightarrow> Inl IndexError
      | t # rest \<Rightarrow>
          (case py_index t idx of
             Inl e \<Rightarrow> Inl e
           | Inr i \<Rightarrow>
               (let rowlen = prod_list rest in
                case (case actual of
                        Float x \<Rightarrow> Inr (replicate rowlen x)
                      | Array b \<Rightarrow> if shape b = rest then Inr (flat b) else Inl ValueError) of
                  Inl e \<Rightarrow> Inl e
                | Inr row \<Rightarrow>
                    Inr (NDArray (shape a)
                          (take (i * rowlen) (flat a) @ row @ drop ((i + 1) * rowlen) (flat a))))))"

text \<open>
  \<^verbatim>\<open>live[:] = values\<close>: the elements of \<open>values\<close> are copied into the storage of \<open>live\<close>,
  which keeps its shape.  A float has no item assignment.
\<close>

definition setslice_all :: "pyvalue \<Rightarrow> pyvalue \<Rightarrow> error + pyvalue" where
  "setslice_all live values =
     (case live of
        Float _ \<Rightarrow> Inl TypeError
      | Array a \<Rightarrow>
          (case values of
             Float x \<Rightarrow> Inr (Array (NDArray (shape a) (replicate (length (flat a)) x)))
           | Array b \<Rightarrow>
               if shape b = shape a then Inr (Array (NDArray (shape a) (flat b)))
               else Inl ValueError))"

section \<open>FastAccess: the storage backend\<close>

text \<open>
  For a sequence \<open>seq1\<close> a \<^verbatim>\<open>FastAccess\<close> object carries the attributes \<^verbatim>\<open>seq1\<close>,
  \<^verbatim>\<open>_seq1_ndim\<close>, \<^verbatim>\<open>_seq1_length_0\<close>..., \<^verbatim>\<open>_seq1_ramflag\<close>, \<^verbatim>\<open>_seq1_diskflag\<close>,
  \<^verbatim>\<open>_seq1_array\<close>, \<^verbatim>\<open>_seq1_path\<close> and \<^verbatim>\<open>_seq1_file\<close>.  They are collected in one
  record.  \<^verbatim>\<open>Sequence.connect\<close> creates exactly \<open>NDIM\<close> length attributes, so the
  number of dimensions is the length of the list \<open>lengths\<close>.  The file at
  \<^verbatim>\<open>_seq1_path\<close> is its content (\<open>None\<close>: there is no such file); the file object is
  the position of its handle.  The model starts at \<^verbatim>\<open>connect\<close> with an established
  value, so every attribute exists.
\<close>

datatype fhandle = NoHandle | Opened nat | Closed

record descriptor =
  val :: pyvalue
  lengths :: "nat list"
  ramflag :: bool
  diskflag :: bool
  array :: "ndarray option"
  disk :: "byte list option"
  handle :: fhandle

definition ndim :: "descriptor \<Rightarrow> nat" where
  "ndim d = length (lengths d)"

text \<open>Iteration \<^verbatim>\<open>for name in self\<close> visits the sequences in one fixed order.\<close>

type_synonym fastaccess = "(string \<times> descriptor) list"

subsection \<open>openfiles and closefiles\<close>

text \<open>
  \<^verbatim>\<open>position = 8*idx; for idim in range(ndim): position *= length\<close>
\<close>

definition seek_position :: "int \<Rightarrow> nat list \<Rightarrow> int" where
  "seek_position idx ls = foldl (\<lambda>position length. position * int length) (8 * idx) ls"

text \<open>
  \<^verbatim>\<open>open(path, 'rb+')\<close> raises for a missing file, \<^verbatim>\<open>seek\<close> for a negative position.
\<close>

definition openfiles_one :: "int \<Rightarrow> descriptor \<Rightarrow> error + descriptor" where
  "openfiles_one idx d =
     (if diskflag d then
        (case disk d of
           None \<Rightarrow> Inl IOError
         | Some _ \<Rightarrow>
             (let position = seek_position idx (lengths d)
              in if position < 0 then Inl IOError
                 else Inr (d\<lparr>handle := Opened (nat position)\<rparr>)))
      else Inr d)"

fun openfiles :: "int \<Rightarrow> fastaccess \<Rightarrow> error + fastaccess" where
  "openfiles idx [] = Inr []"
| "openfiles idx ((name, d) # rest) =
     (case openfiles_one idx d of
        Inl e \<Rightarrow> Inl e
      | Inr d' \<Rightarrow>
          (case openfiles idx rest of
             Inl e \<Rightarrow> Inl e
           | Inr rest' \<Rightarrow> Inr ((name, d') # rest')))"

text \<open>Before any \<^verbatim>\<open>openfiles\<close> the file attribute is the string \<^verbatim>\<open>''\<close>, which has no \<^verbatim>\<open>close\<close>.\<close>

definition closefiles_one :: "descriptor \<Rightarrow> error + descriptor" where
  "closefiles_one d =
     (if diskflag d then
        (case handle d of
           NoHandle \<Rightarrow> Inl AttributeError
         | _ \<Rightarrow> Inr (d\<lparr>handle := Closed\<rparr>))
      else Inr d)"

fun closefiles :: "fastaccess \<Rightarrow> error + fastaccess" where
  "closefiles [] = Inr []"
| "closefiles ((name, d) # rest) =
     (case closefiles_one d of
        Inl e \<Rightarrow> Inl e
      | Inr d' \<Rightarrow>
          (case closefiles rest of
             Inl e \<Rightarrow> Inl e
           | Inr rest' \<Rightarrow> Inr ((name, d') # rest')))"

subsection \<open>loaddata and savedata\<close>

text \<open>
  Both methods take the step index \<open>idx\<close> and, in their disk branch, run an inner loop
  \<^verbatim>\<open>for idx in range(ndim)\<close> over the same variable.  After the disk branch of a
  sequence with \<open>ndim > 0\<close> the variable holds \<open>ndim - 1\<close>; \<^verbatim>\<open>range(0)\<close> leaves it
  alone.  The body for one sequence therefore returns the index with which the loop
  goes on.
\<close>

definition idx_after :: "int \<Rightarrow> nat \<Rightarrow> int" where
  "idx_after idx n = (if n = 0 then idx else int n - 1)"

text \<open>\<^verbatim>\<open>file_.read(n)\<close> at a position: at most \<open>n\<close> bytes, fewer at the end of the file.\<close>

definition read_at :: "byte list \<Rightarrow> nat \<Rightarrow> nat \<Rightarrow> byte list" where
  "read_at content pos n = take n (drop pos content)"

text \<open>\<^verbatim>\<open>file_.write(raw)\<close> at a position; a gap behind the end of the file reads as zeros.\<close>

definition write_at :: "byte list \<Rightarrow> nat \<Rightarrow> byte list \<Rightarrow> byte list" where
  "write_at content pos raw =
     take pos content @ replicate (pos - length content) 0 @ raw
       @ drop (pos + length raw) content"

text \<open>
  The last lines of the loop body of \<^verbatim>\<open>loaddata\<close>: \<^verbatim>\<open>setattr(self, name, values)\<close> for
  \<open>ndim = 0\<close>, \<^verbatim>\<open>getattr(self, name)[:] = values\<close> otherwise.
\<close>

definition store_values :: "pyvalue \<Rightarrow> descriptor \<Rightarrow> error + descriptor" where
  "store_values values d =
     (if ndim d = 0 then Inr (d\<lparr>val := values\<rparr>)
      else (case setslice_all (val d) values of
              Inl e \<Rightarrow> Inl e
            | Inr v \<Rightarrow> Inr (d\<lparr>val := v\<rparr>)))"

text \<open>
  \<^verbatim>\<open>values = struct.unpack(length_tot*'d', raw)\<close>, then
  \<^verbatim>\<open>numpy.array(values).reshape(shape)\<close> for \<open>ndim > 0\<close> and \<^verbatim>\<open>values[0]\<close> for \<open>ndim = 0\<close>.
\<close>

definition unpack_values :: "nat list \<Rightarrow> byte list \<Rightarrow> pyvalue" where
  "unpack_values ls raw =
     (let values = unpack_all (prod_list ls) raw
      in if length ls \<noteq> 0 then Array (NDArray ls values) else Float (hd values))"

definition loaddata_one :: "int \<Rightarrow> descriptor \<Rightarrow> error + (int \<times> descriptor)" where
  "loaddata_one idx d =
     (if diskflag d then
        (case handle d of
           NoHandle \<Rightarrow> Inl AttributeError
         | Closed \<Rightarrow> Inl ValueError
         | Opened pos \<Rightarrow>
             (case disk d of
                None \<Rightarrow> Inl IOError
              | Some content \<Rightarrow>
                  (let length_tot = prod_list (lengths d);
                       raw = read_at content pos (length_tot * 8)
                   in if length raw \<noteq> length_tot * 8 then Inl StructError
                      else
                        (case store_values (unpack_values (lengths d) raw)
                                (d\<lparr>handle := Opened (pos + length raw)\<rparr>) of
                           Inl e \<Rightarrow> Inl e
                         | Inr d' \<Rightarrow> Inr (idx_after idx (ndim d), d')))))
      else if ramflag d then
        (case array d of
           None \<Rightarrow> Inl TypeError
         | Some a \<Rightarrow>
             (case getitem a idx of
                Inl e \<Rightarrow> Inl e
              | Inr values \<Rightarrow>
                  (case store_values values d of
                     Inl e \<Rightarrow> Inl e
                   | Inr d' \<Rightarrow> Inr (idx, d'))))
      else Inr (idx, d))"

fun loaddata :: "int \<Rightarrow> fastaccess \<Rightarrow> error + fastaccess" where
  "loaddata idx [] = Inr []"
| "loaddata idx ((name, d) # rest) =
     (case loaddata_one idx d of
        Inl e \<Rightarrow> Inl e
      | Inr (idx', d') \<Rightarrow>
          (case loaddata idx' rest of
             Inl e \<Rightarrow> Inl e
           | Inr rest' \<Rightarrow> Inr ((name, d') # rest')))"

text \<open>
  \<^verbatim>\<open>struct.pack(length_tot*'d', *actual.flatten())\<close> needs exactly \<open>length_tot\<close>
  numbers, and a float has no \<^verbatim>\<open>flatten\<close>; \<^verbatim>\<open>struct.pack('d', actual)\<close> needs one number
  (an array of a single element converts to it).
\<close>

definition pack_actual :: "descriptor \<Rightarrow> error + byte list" where
  "pack_actual d =
     (if ndim d \<noteq> 0 then
        (case val d of
           Float _ \<Rightarrow> Inl AttributeError
         | Array a \<Rightarrow>
             if length (flat a) = prod_list (lengths d) then Inr (pack_all (flat a))
             else Inl StructError)
      else
        (case val d of
           Float x \<Rightarrow> Inr (pack_d x)
         | Array a \<Rightarrow> (case flat a of [x] \<Rightarrow> Inr (pack_d x) | _ \<Rightarrow> Inl TypeError)))"

definition savedata_one :: "int \<Rightarrow> descriptor \<Rightarrow> error + (int \<times> descriptor)" where
  "savedata_one idx d =
     (if diskflag d then
        (case pack_actual d of
           Inl e \<Rightarrow> Inl e
         | Inr raw \<Rightarrow>
             (case handle d of
                NoHandle \<Rightarrow> Inl AttributeError
              | Closed \<Rightarrow> Inl ValueError
              | Opened pos \<Rightarrow>
                  (case disk d of
                     None \<Rightarrow> Inl IOError
                   | Some content \<Rightarrow>
                       Inr (idx_after idx (ndim d),
                            d\<lparr>disk := Some (write_at content pos raw),
                              handle := Opened (pos + length raw)\<rparr>))))
      else if ramflag d then
        (case array d of
           None \<Rightarrow> Inl TypeError
         | Some a \<Rightarrow>
             (case setitem a idx (val d) of
                Inl e \<Rightarrow> Inl e
              | Inr a' \<Rightarrow> Inr (idx, d\<lparr>array := Some a'\<rparr>)))
      else Inr (idx, d))"

fun savedata :: "int \<Rightarrow> fastaccess \<Rightarrow> error + fastaccess" where
  "savedata idx [] = Inr []"
| "savedata idx ((name, d) # rest) =
     (case savedata_one idx d of
        Inl e \<Rightarrow> Inl e
      | Inr (idx', d') \<Rightarrow>
          (case savedata idx' rest of
             Inl e \<Rightarrow> Inl e
           | Inr rest' \<Rightarrow> Inr ((name, d') # rest')))"

text \<open>
  What \<^verbatim>\<open>update_fastaccess\<close> and the value setters establish: the live value has the
  registered per-axis lengths, and a RAM array holds rows of that shape.
\<close>

definition value_fits :: "nat list \<Rightarrow> pyvalue \<Rightarrow> bool" where
  "value_fits ls v =
     (case v of
        Float _ \<Rightarrow> ls = []
      | Array a \<Rightarrow> shape a = ls \<and> ls \<noteq> [] \<and> length (flat a) = prod_list ls)"

definition array_fits :: "nat list \<Rightarrow> ndarray option \<Rightarrow> bool" where
  "array_fits ls r =
     (case r of
        None \<Rightarrow> True
      | Some a \<Rightarrow> shape a \<noteq> [] \<and> tl (shape a) = ls \<and> length (flat a) = prod_list (shape a))"

definition consistent :: "descriptor \<Rightarrow> bool" where
  "consistent d = (value_fits (lengths d) (val d) \<and> array_fits (lengths d) (array d))"

text \<open>The record size of the specification: 8 bytes times the product of the axis lengths.\<close>

definition recordSize :: "descriptor \<Rightarrow> nat" where
  "recordSize d = 8 * prod_list (lengths d)"

subsection \<open>A save followed by a load\<close>

text \<open>
  The calls of the round trip: \<^verbatim>\<open>savedata(idx)\<close> and then \<^verbatim>\<open>loaddata(idx)\<close>; and the same
  with \<^verbatim>\<open>closefiles()\<close> and \<^verbatim>\<open>openfiles(idx)\<close> in between.  An exception ends the run.
\<close>

definition save_then_load :: "int \<Rightarrow> fastaccess \<Rightarrow> error + fastaccess" where
  "save_then_load idx fa =
     (case savedata idx fa of Inl e \<Rightarrow> Inl e | Inr fa' \<Rightarrow> loaddata idx fa')"

definition save_reopen_load :: "int \<Rightarrow> fastaccess \<Rightarrow> error + fastaccess" where
  "save_reopen_load idx fa =
     (case savedata idx fa of
        Inl e \<Rightarrow> Inl e
      | Inr fa1 \<Rightarrow>
          (case closefiles fa1 of
             Inl e \<Rightarrow> Inl e
           | Inr fa2 \<Rightarrow>
               (case openfiles idx fa2 of
                  Inl e \<Rightarrow> Inl e
                | Inr fa3 \<Rightarrow> loaddata idx fa3)))"

text \<open>A scalar sequence in disk mode whose file holds two records.\<close>

definition runoff :: descriptor where
  "runoff = \<lparr>val = Float one, lengths = [], ramflag = False, diskflag = True,
             array = None, disk = Some (pack_d zero @ pack_d nan), handle = NoHandle\<rparr>"

text \<open>
  A 2-dimensional sequence in disk mode with an empty file, and a 1-dimensional sequence
  in RAM mode with a series of one step.
\<close>

definition qpin :: descriptor where
  "qpin = \<lparr>val = Array (NDArray [2, 3] [one, one, one, zero, zero, one]), lengths = [2, 3],
           ramflag = False, diskflag = True, array = None,
           disk = Some [], handle = NoHandle\<rparr>"

definition qma :: descriptor where
  "qma = \<lparr>val = Array (NDArray [2] [one, nan]), lengths = [2], ramflag = True,
          diskflag = False, array = Some (NDArray [1, 2] [zero, zero]), disk = None,
          handle = NoHandle\<rparr>"

section \<open>Time grids\<close>

text \<open>
  Modelled from the spec: the time-grid type of module \<^verbatim>\<open>timetools\<close> is not part of the
  sources.  A time grid is "the (first date, last date, step size) triple discretizing a
  run".  Dates and step sizes are counted in one fixed unit of time (days in the examples
  below, where the number is the day of January 2000).
\<close>

record timegrid =
  firstdate :: int
  lastdate :: int
  stepsize :: int

text \<open>
  Modelled from the spec: \<^verbatim>\<open>len(timegrid)\<close>, the number of steps of the grid, is missing with
  \<^verbatim>\<open>timetools\<close> ("simulation grid = 5 daily steps starting 2000-01-10" is the grid from
  2000-01-10 to 2000-01-15).
\<close>

definition timegrid_len :: "timegrid \<Rightarrow> nat" where
  "timegrid_len tg = nat ((lastdate tg - firstdate tg) div stepsize tg)"

text \<open>
  Modelled from the spec: \<^verbatim>\<open>timegrid[date]\<close> is missing with \<^verbatim>\<open>timetools\<close>; it is "the
  external-array index corresponding to" a date, negative for a date before the grid.
\<close>

definition timegrid_index :: "timegrid \<Rightarrow> int \<Rightarrow> int" where
  "timegrid_index tg date = (date - firstdate tg) div stepsize tg"

text \<open>
  Modelled from the spec: \<^verbatim>\<open>init in timegrid_data\<close> is missing with \<^verbatim>\<open>timetools\<close>; it holds
  when "the external grid's coverage is a superset of the simulation window".
\<close>

definition timegrid_contains :: "timegrid \<Rightarrow> timegrid \<Rightarrow> bool" where
  "timegrid_contains outer inner =
     (firstdate outer \<le> firstdate inner \<and> lastdate inner \<le> lastdate outer)"

section \<open>Slices of the time axis\<close>

text \<open>
  Python's slice \<^verbatim>\<open>[i:j]\<close> on an axis of length \<open>n\<close>: a negative bound counts from the end,
  both bounds are clipped to the axis, and the slice is empty when the upper bound is not
  above the lower one.  The result is the first selected position and the one after the
  last.
\<close>

definition slice_clip :: "nat \<Rightarrow> int \<Rightarrow> nat" where
  "slice_clip n k = (if k < 0 then nat (max (int n + k) 0) else nat (min k (int n)))"

definition slice_bounds :: "nat \<Rightarrow> int \<Rightarrow> int \<Rightarrow> nat \<times> nat" where
  "slice_bounds n i j = (slice_clip n i, max (slice_clip n i) (slice_clip n j))"

text \<open>\<^verbatim>\<open>a[i:j]\<close> on the first axis.\<close>

definition getslice :: "ndarray \<Rightarrow> int \<Rightarrow> int \<Rightarrow> error + ndarray" where
  "getslice a i j =
     (case shape a of
        [] \<Rightarrow> Inl IndexError
      | t # rest \<Rightarrow>
          (case slice_bounds t i j of
             (lo, hi) \<Rightarrow>
               Inr (NDArray ((hi - lo) # rest)
                     (take ((hi - lo) * prod_list rest) (drop (lo * prod_list rest) (flat a))))))"

text \<open>
  \<^verbatim>\<open>a[i:j] = b\<close> on the first axis.  The rows of \<open>b\<close> are copied when \<open>b\<close> has as many rows
  as the slice; a \<open>b\<close> of one row, or of one number, is repeated.  Rows of \<open>b\<close> whose shape
  is not the shape of the rows of \<open>a\<close> raise in the model (\<^verbatim>\<open>load_ext\<close> has compared the
  shapes before).
\<close>

definition setslice :: "ndarray \<Rightarrow> int \<Rightarrow> int \<Rightarrow> ndarray \<Rightarrow> error + ndarray" where
  "setslice a i j b =
     (case shape a of
        [] \<Rightarrow> Inl IndexError
      | t # rest \<Rightarrow>
          (case slice_bounds t i j of
             (lo, hi) \<Rightarrow>
               (case (case shape b of
                        [] \<Rightarrow> (case flat b of
                                 [x] \<Rightarrow> Inr (replicate ((hi - lo) * prod_list rest) x)
                               | _ \<Rightarrow> Inl ValueError)
                      | m # rest' \<Rightarrow>
                          if rest' \<noteq> rest then Inl ValueError
                          else if m = hi - lo then Inr (flat b)
                          else if m = 1 then Inr (concat (replicate (hi - lo) (flat b)))
                          else Inl ValueError) of
                  Inl e \<Rightarrow> Inl e
                | Inr seg \<Rightarrow>
                    Inr (NDArray (shape a)
                          (take (lo * prod_list rest) (flat a) @ seg
                             @ drop (hi * prod_list rest) (flat a))))))"

text \<open>\<^verbatim>\<open>numpy.full(shape, x)\<close> and \<^verbatim>\<open>numpy.zeros(shape)\<close>.\<close>

definition full :: "nat list \<Rightarrow> f64 \<Rightarrow> ndarray" where
  "full sh x = NDArray sh (replicate (prod_list sh) x)"

text \<open>Row \<open>k\<close> of an array, the elements at position \<open>k\<close> of the first axis.\<close>

definition row :: "ndarray \<Rightarrow> nat \<Rightarrow> f64 list" where
  "row a k = take (prod_list (tl (shape a))) (drop (k * prod_list (tl (shape a))) (flat a))"

section \<open>IOSequence: series in RAM and on disk\<close>

text \<open>
  The module \<^verbatim>\<open>pub\<close> with the options and the initialisation time grid, and the external
  data file of the sequence: \<open>None\<close> when there is no such file, otherwise what
  \<^verbatim>\<open>_load_npy\<close> or \<^verbatim>\<open>_load_asc\<close> return for it, the time grid of the data and the values.
\<close>

record env =
  usedefaultvalues :: bool
  checkseries :: bool
  warnmissingsimfile :: bool
  warnmissingobsfile :: bool
  init :: timegrid
  external :: "(timegrid \<times> ndarray) option"

datatype seqkind = InputSequence | FluxSequence | StateSequence | Sim | Obs

datatype warning = DiskflagReset | RamflagReset

text \<open>
  An \<^verbatim>\<open>IOSequence\<close> object: its class, the attribute \<^verbatim>\<open>use_ext\<close> of the node sequences,
  the class attribute \<^verbatim>\<open>INIT\<close> where the class has one, its attributes on the
  \<^verbatim>\<open>FastAccess\<close> object, and the warnings that \<^verbatim>\<open>warnings.warn\<close> has issued for it.
  The field \<open>disk\<close> of the descriptor is the file at \<^verbatim>\<open>filepath_int\<close>.
\<close>

record iosequence =
  kind :: seqkind
  use_ext :: bool
  INIT :: "f64 option"
  fast :: descriptor
  warned :: "warning list"

text \<open>A method that returns nothing: the exception it raised, if any, and the object after it.\<close>

type_synonym outcome = "error option \<times> iosequence"

text \<open>
  The property \<^verbatim>\<open>initvalue\<close>, for a class with the given attribute \<^verbatim>\<open>INIT\<close> (\<open>None\<close>: the
  class has none).
\<close>

definition initvalue_of :: "env \<Rightarrow> f64 option \<Rightarrow> f64" where
  "initvalue_of e i =
     (if usedefaultvalues e then (case i of None \<Rightarrow> zero | Some v \<Rightarrow> v) else nan)"

definition initvalue :: "env \<Rightarrow> iosequence \<Rightarrow> f64" where
  "initvalue e s = initvalue_of e (INIT s)"

text \<open>
  The property \<^verbatim>\<open>shape\<close>, the shape of the values for \<open>NDIM > 0\<close> and the empty tuple for
  \<open>NDIM = 0\<close>, and the property \<^verbatim>\<open>seriesshape\<close>, which puts the number of steps of the
  initialisation period in front.
\<close>

definition getshape :: "iosequence \<Rightarrow> nat list" where
  "getshape s =
     (if ndim (fast s) \<noteq> 0 then (case val (fast s) of Float _ \<Rightarrow> [] | Array a \<Rightarrow> shape a)
      else [])"

definition seriesshape :: "env \<Rightarrow> iosequence \<Rightarrow> nat list" where
  "seriesshape e s = timegrid_len (init e) # getshape s"

text \<open>The setters of the two flags, \<^verbatim>\<open>_setarray\<close> and \<^verbatim>\<open>_getarray\<close>.\<close>

definition set_ramflag :: "bool \<Rightarrow> iosequence \<Rightarrow> iosequence" where
  "set_ramflag b s = s\<lparr>fast := (fast s)\<lparr>ramflag := b\<rparr>\<rparr>"

definition set_diskflag :: "bool \<Rightarrow> iosequence \<Rightarrow> iosequence" where
  "set_diskflag b s = s\<lparr>fast := (fast s)\<lparr>diskflag := b\<rparr>\<rparr>"

definition setarray :: "ndarray \<Rightarrow> iosequence \<Rightarrow> iosequence" where
  "setarray values s = s\<lparr>fast := (fast s)\<lparr>array := Some values\<rparr>\<rparr>"

definition getarray :: "iosequence \<Rightarrow> error + ndarray" where
  "getarray s =
     (case array (fast s) of None \<Rightarrow> Inl (RuntimeError NoRamArray) | Some a \<Rightarrow> Inr a)"

text \<open>\<^verbatim>\<open>values.tofile(path)\<close> and \<^verbatim>\<open>numpy.fromfile(path)\<close>, which reads whole numbers only.\<close>

definition save_int :: "ndarray \<Rightarrow> iosequence \<Rightarrow> iosequence" where
  "save_int values s = s\<lparr>fast := (fast s)\<lparr>disk := Some (pack_all (flat values))\<rparr>\<rparr>"

definition fromfile :: "byte list \<Rightarrow> ndarray" where
  "fromfile content = NDArray [length content div 8] (unpack_all (length content div 8) content)"

text \<open>
  \<^verbatim>\<open>_load_int\<close> gives the numbers of the file the shape of the series when \<open>NDIM > 0\<close>;
  \<^verbatim>\<open>reshape\<close> raises when the numbers do not fill that shape.
\<close>

definition reshape :: "ndarray \<Rightarrow> nat list \<Rightarrow> error + ndarray" where
  "reshape a sh = (if prod_list sh = length (flat a) then Inr (NDArray sh (flat a)) else Inl ValueError)"

definition load_int :: "env \<Rightarrow> iosequence \<Rightarrow> error + ndarray" where
  "load_int e s =
     (case disk (fast s) of
        None \<Rightarrow> Inl IOError
      | Some content \<Rightarrow>
          if ndim (fast s) > 0 then reshape (fromfile content) (seriesshape e s)
          else Inr (fromfile content))"

definition getseries :: "env \<Rightarrow> iosequence \<Rightarrow> error + ndarray" where
  "getseries e s =
     (if diskflag (fast s) then load_int e s
      else if ramflag (fast s) then getarray s
      else Inl (RuntimeError NoInternalData))"

text \<open>\<^verbatim>\<open>del self.series\<close>: \<^verbatim>\<open>os.remove\<close> raises for a missing file.\<close>

definition delseries :: "iosequence \<Rightarrow> outcome" where
  "delseries s =
     (if diskflag (fast s) then
        (case disk (fast s) of
           None \<Rightarrow> (Some OSError, s)
         | Some _ \<Rightarrow> (None, s\<lparr>fast := (fast s)\<lparr>disk := None\<rparr>\<rparr>))
      else if ramflag (fast s) then (None, s\<lparr>fast := (fast s)\<lparr>array := None\<rparr>\<rparr>)
      else (None, s))"

text \<open>
  \<^verbatim>\<open>update_fastaccess\<close> copies the first \<open>NDIM\<close> lengths of the shape into the length
  attributes; \<^verbatim>\<open>self.shape[idx]\<close> raises when the shape has fewer axes.
\<close>

definition update_fastaccess :: "iosequence \<Rightarrow> outcome" where
  "update_fastaccess s =
     (let sh = getshape s; n = ndim (fast s)
      in if length sh < n
         then (Some IndexError, s\<lparr>fast := (fast s)\<lparr>lengths := sh @ drop (length sh) (lengths (fast s))\<rparr>\<rparr>)
         else (None, s\<lparr>fast := (fast s)\<lparr>lengths := take n sh\<rparr>\<rparr>))"

text \<open>\<^verbatim>\<open>zero_int\<close> stores a series of zeros where the active flag says.\<close>

definition zero_int :: "env \<Rightarrow> iosequence \<Rightarrow> outcome" where
  "zero_int e s =
     (let values = full (seriesshape e s) zero
      in if diskflag (fast s) then (None, save_int values s)
         else if ramflag (fast s) then (None, setarray values s)
         else (Some (RuntimeError NoInternalData), s))"

subsection \<open>Loading an external series\<close>

text \<open>
  \<^verbatim>\<open>adjust_short_series(self, timegrid, values)\<close>.  \<^verbatim>\<open>len(valcopy)\<close> raises for an array
  without an axis.
\<close>

definition clip_index :: "nat \<Rightarrow> int \<Rightarrow> int" where
  "clip_index n idx = (if idx < 0 then 0 else if idx \<le> int n then idx else int n)"

definition adjust_short_series :: "env \<Rightarrow> iosequence \<Rightarrow> timegrid \<Rightarrow> ndarray \<Rightarrow> error + ndarray" where
  "adjust_short_series e s tg valcopy =
     (let idxs0 = timegrid_index tg (firstdate (init e));
          idxs1 = timegrid_index tg (lastdate (init e));
          values = full (seriesshape e s) (initvalue e s)
      in case shape valcopy of
           [] \<Rightarrow> Inl TypeError
         | n # _ \<Rightarrow>
             (let jdxs0 = clip_index n idxs0;
                  jdxs1 = clip_index n idxs1
              in case getslice valcopy jdxs0 jdxs1 of
                   Inl err \<Rightarrow> Inl err
                 | Inr valcopy' \<Rightarrow>
                     (let zdx1 = max (- idxs0) 0;
                          zdx2 = zdx1 + jdxs1 - jdxs0
                      in setslice values zdx1 zdx2 valcopy')))"

text \<open>
  The part of \<^verbatim>\<open>load_ext\<close> in front of the storing: the file is read, the shape and the step
  size are compared, and the values are cut or adjusted to the initialisation period.
\<close>

definition load_ext_values :: "env \<Rightarrow> iosequence \<Rightarrow> error + ndarray" where
  "load_ext_values e s =
     (case external e of
        None \<Rightarrow> Inl IOError
      | Some (timegrid_data, values) \<Rightarrow>
          if getshape s \<noteq> tl (shape values) then Inl (RuntimeError ShapeOfExternalFile)
          else if stepsize (init e) \<noteq> stepsize timegrid_data then Inl (RuntimeError StepSize)
          else if \<not> timegrid_contains timegrid_data (init e) then
            (if checkseries e then Inl (RuntimeError NotASubset)
             else adjust_short_series e s timegrid_data values)
          else getslice values (timegrid_index timegrid_data (firstdate (init e)))
                 (timegrid_index timegrid_data (lastdate (init e))))"

definition load_ext :: "env \<Rightarrow> iosequence \<Rightarrow> outcome" where
  "load_ext e s =
     (case load_ext_values e s of
        Inl err \<Rightarrow> (Some err, s)
      | Inr values \<Rightarrow>
          if diskflag (fast s) then (None, save_int values s)
          else if ramflag (fast s) then (None, setarray values s)
          else (Some (RuntimeError NoInternalData), s))"

subsection \<open>The mode transitions\<close>

definition deactivate_disk :: "iosequence \<Rightarrow> outcome" where
  "deactivate_disk s =
     (if diskflag (fast s) then
        (case delseries s of
           (Some err, s') \<Rightarrow> (Some err, s')
         | (None, s') \<Rightarrow> (None, set_diskflag False s'))
      else (None, s))"

definition deactivate_ram :: "iosequence \<Rightarrow> outcome" where
  "deactivate_ram s =
     (if ramflag (fast s) then
        (case delseries s of
           (Some err, s') \<Rightarrow> (Some err, s')
         | (None, s') \<Rightarrow> (None, set_ramflag False s'))
      else (None, s))"

text \<open>
  \<^verbatim>\<open>isinstance(self, InputSequence) or (isinstance(self, NodeSequence) and self.use_ext)\<close>
\<close>

definition reads_external :: "iosequence \<Rightarrow> bool" where
  "reads_external s = (kind s = InputSequence \<or> ((kind s = Sim \<or> kind s = Obs) \<and> use_ext s))"

definition prepare_series :: "env \<Rightarrow> iosequence \<Rightarrow> outcome" where
  "prepare_series e s =
     (case (if reads_external s then load_ext e s else zero_int e s) of
        (Some err, s') \<Rightarrow> (Some err, s')
      | (None, s') \<Rightarrow> update_fastaccess s')"

text \<open>\<^verbatim>\<open>IOSequence.activate_disk\<close> and \<^verbatim>\<open>IOSequence.activate_ram\<close>.\<close>

definition IOSequence_activate_disk :: "env \<Rightarrow> iosequence \<Rightarrow> outcome" where
  "IOSequence_activate_disk e s =
     (case deactivate_ram s of
        (Some err, s') \<Rightarrow> (Some err, s')
      | (None, s') \<Rightarrow> prepare_series e (set_diskflag True s'))"

definition IOSequence_activate_ram :: "env \<Rightarrow> iosequence \<Rightarrow> outcome" where
  "IOSequence_activate_ram e s =
     (case deactivate_disk s of
        (Some err, s') \<Rightarrow> (Some err, s')
      | (None, s') \<Rightarrow> prepare_series e (set_ramflag True s'))"

text \<open>
  The overriding methods of \<^verbatim>\<open>Sim\<close> and \<^verbatim>\<open>Obs\<close>: an \<^verbatim>\<open>IOError\<close> is caught, the flag is
  reset, and the warning is issued when the option asks for it.
\<close>

definition node_activate_disk :: "bool \<Rightarrow> env \<Rightarrow> iosequence \<Rightarrow> outcome" where
  "node_activate_disk warn e s =
     (case IOSequence_activate_disk e s of
        (Some IOError, s') \<Rightarrow>
          (None, (set_diskflag False s')\<lparr>warned := warned s' @ (if warn then [DiskflagReset] else [])\<rparr>)
      | r \<Rightarrow> r)"

definition node_activate_ram :: "bool \<Rightarrow> env \<Rightarrow> iosequence \<Rightarrow> outcome" where
  "node_activate_ram warn e s =
     (case IOSequence_activate_ram e s of
        (Some IOError, s') \<Rightarrow>
          (None, (set_ramflag False s')\<lparr>warned := warned s' @ (if warn then [RamflagReset] else [])\<rparr>)
      | r \<Rightarrow> r)"

text \<open>The method that \<^verbatim>\<open>seq.activate_disk()\<close> and \<^verbatim>\<open>seq.activate_ram()\<close> call for each class.\<close>

definition activate_disk :: "env \<Rightarrow> iosequence \<Rightarrow> outcome" where
  "activate_disk e s =
     (case kind s of
        Sim \<Rightarrow> node_activate_disk (warnmissingsimfile e) e s
      | Obs \<Rightarrow> node_activate_disk (warnmissingobsfile e) e s
      | _ \<Rightarrow> IOSequence_activate_disk e s)"

definition activate_ram :: "env \<Rightarrow> iosequence \<Rightarrow> outcome" where
  "activate_ram e s =
     (case kind s of
        Sim \<Rightarrow> node_activate_ram (warnmissingsimfile e) e s
      | Obs \<Rightarrow> node_activate_ram (warnmissingobsfile e) e s
      | _ \<Rightarrow> IOSequence_activate_ram e s)"

definition disk2ram :: "env \<Rightarrow> iosequence \<Rightarrow> outcome" where
  "disk2ram e s =
     (case getseries e s of
        Inl err \<Rightarrow> (Some err, s)
      | Inr values \<Rightarrow>
          (case deactivate_disk s of
             (Some err, s') \<Rightarrow> (Some err, s')
           | (None, s') \<Rightarrow> update_fastaccess (setarray values (set_ramflag True s'))))"

definition ram2disk :: "env \<Rightarrow> iosequence \<Rightarrow> outcome" where
  "ram2disk e s =
     (case getseries e s of
        Inl err \<Rightarrow> (Some err, s)
      | Inr values \<Rightarrow>
          (case deactivate_ram s of
             (Some err, s') \<Rightarrow> (Some err, s')
           | (None, s') \<Rightarrow> update_fastaccess (save_int values (set_diskflag True s'))))"

text \<open>
  A run of mode transitions.  Each one is called in the environment of its moment, and
  the object goes on in the state in which a call left it, whether it returned or raised.
\<close>

datatype modeop =
    ActivateRam | ActivateDisk | DeactivateRam | DeactivateDisk | Ram2Disk | Disk2Ram

definition apply_modeop :: "env \<times> modeop \<Rightarrow> iosequence \<Rightarrow> outcome" where
  "apply_modeop c s =
     (case snd c of
        ActivateRam \<Rightarrow> activate_ram (fst c) s
      | ActivateDisk \<Rightarrow> activate_disk (fst c) s
      | DeactivateRam \<Rightarrow> deactivate_ram s
      | DeactivateDisk \<Rightarrow> deactivate_disk s
      | Ram2Disk \<Rightarrow> ram2disk (fst c) s
      | Disk2Ram \<Rightarrow> disk2ram (fst c) s)"

fun run_modeops :: "(env \<times> modeop) list \<Rightarrow> iosequence \<Rightarrow> iosequence" where
  "run_modeops [] s = s"
| "run_modeops (c # cs) s = run_modeops cs (snd (apply_modeop c s))"

subsection \<open>Example objects\<close>

text \<open>
  The objects of the doctest of \<^verbatim>\<open>adjust_short_series\<close>: \<^verbatim>\<open>obs = Obs()\<close>, the initialisation
  period \<^verbatim>\<open>Timegrid('2000.01.10', '2000.01.15', '1d')\<close> with the option
  \<^verbatim>\<open>usedefaultvalues\<close> as given, and \<^verbatim>\<open>numpy.ones(n)\<close>.
\<close>

definition obs :: iosequence where
  "obs = \<lparr>kind = Obs, use_ext = True, INIT = None,
          fast = \<lparr>val = Float zero, lengths = [], ramflag = False, diskflag = False,
                  array = None, disk = None, handle = NoHandle\<rparr>,
          warned = []\<rparr>"

definition example_env :: "bool \<Rightarrow> env" where
  "example_env d = \<lparr>usedefaultvalues = d, checkseries = False, warnmissingsimfile = True,
                    warnmissingobsfile = True,
                    init = \<lparr>firstdate = 10, lastdate = 15, stepsize = 1\<rparr>,
                    external = None\<rparr>"

definition ones :: "nat \<Rightarrow> ndarray" where
  "ones n = NDArray [n] (replicate n one)"

text \<open>The two mode flags are not both set.\<close>

definition exclusive :: "iosequence \<Rightarrow> bool" where
  "exclusive s = (\<not> (ramflag (fast s) \<and> diskflag (fast s)))"

text \<open>
  Sequences for the examples: a flux sequence with the descriptor \<open>qma\<close> (its series in
  RAM), the same sequence with its series on disk, a \<^verbatim>\<open>Sim\<close> sequence that reads an
  external file, and a scalar input sequence; and an initialisation period of one day.
\<close>

definition flux_ram :: iosequence where
  "flux_ram = \<lparr>kind = FluxSequence, use_ext = False, INIT = None, fast = qma, warned = []\<rparr>"

definition flux_disk :: iosequence where
  "flux_disk = \<lparr>kind = FluxSequence, use_ext = False, INIT = None,
                fast = qma\<lparr>array := None, ramflag := False, diskflag := True,
                           disk := Some (pack_all [one, nan])\<rparr>,
                warned = []\<rparr>"

definition sim_ext :: iosequence where
  "sim_ext = obs\<lparr>kind := Sim\<rparr>"

definition input_seq :: iosequence where
  "input_seq = obs\<lparr>kind := InputSequence, use_ext := False\<rparr>"

definition one_day :: env where
  "one_day = (example_env False)\<lparr>init := \<lparr>firstdate = 10, lastdate = 11, stepsize = 1\<rparr>\<rparr>"

section \<open>StateSequence: the old and the new values\<close>

text \<open>
  A state sequence keeps its values twice, as the attribute of its name on the objects
  \<^verbatim>\<open>fastaccess_new\<close> and \<^verbatim>\<open>fastaccess_old\<close>.  Such an attribute is \<^verbatim>\<open>None\<close>, a float, or a
  reference to a numpy array; the arrays live in a store, so that two references to one
  array see each other's writes.  \<open>initv\<close> is the \<^verbatim>\<open>initvalue\<close> of the sequence.
\<close>

type_synonym addr = nat

datatype attr = PyNone | PyFloat f64 | PyArray addr

record statesequence =
  NDIM :: nat
  initv :: f64
  fast_new :: attr
  fast_old :: attr
  store :: "addr \<Rightarrow> ndarray option"
  next_addr :: addr

type_synonym state_outcome = "error option \<times> statesequence"

text \<open>\<^verbatim>\<open>connect\<close> and \<^verbatim>\<open>_initvalues\<close> for a state sequence of the given \<^verbatim>\<open>NDIM\<close>.\<close>

definition connect_state :: "nat \<Rightarrow> f64 \<Rightarrow> statesequence" where
  "connect_state n v =
     \<lparr>NDIM = n, initv = v,
      fast_new = (if n = 0 then PyFloat v else PyNone),
      fast_old = (if n = 0 then PyFloat zero else PyNone),
      store = (\<lambda>_. None), next_addr = 0\<rparr>"

text \<open>The getters \<^verbatim>\<open>_getvalue\<close> (the property \<^verbatim>\<open>new\<close>) and \<^verbatim>\<open>_getold\<close>.\<close>

definition deref :: "statesequence \<Rightarrow> attr \<Rightarrow> error + pyvalue" where
  "deref st x =
     (case x of
        PyNone \<Rightarrow> Inl (RuntimeError NoValues)
      | PyFloat v \<Rightarrow> Inr (Float v)
      | PyArray r \<Rightarrow>
          (case store st r of None \<Rightarrow> Inl (RuntimeError NoValues) | Some a \<Rightarrow> Inr (Array a)))"

definition getnew :: "statesequence \<Rightarrow> error + pyvalue" where
  "getnew st = deref st (fast_new st)"

definition getold :: "statesequence \<Rightarrow> error + pyvalue" where
  "getold st = deref st (fast_old st)"

definition state_shape :: "statesequence \<Rightarrow> error + nat list" where
  "state_shape st =
     (if NDIM st \<noteq> 0 then
        (case getnew st of
           Inl e \<Rightarrow> Inl e
         | Inr (Float _) \<Rightarrow> Inr []
         | Inr (Array a) \<Rightarrow> Inr (shape a))
      else Inr [])"

text \<open>
  The conversion of a value for a 0-dimensional sequence in \<^verbatim>\<open>_setvalue\<close>: one number, or a
  container of one number; more numbers are the \<^verbatim>\<open>ValueError\<close> "ambiguous".  In \<^verbatim>\<open>_setold\<close> the
  message of that error is formatted with too few arguments, which is a \<^verbatim>\<open>TypeError\<close>; it
  is caught, and \<^verbatim>\<open>float(value)\<close> raises the \<^verbatim>\<open>TypeError\<close> that leaves the method.
\<close>

definition to_float :: "pyvalue \<Rightarrow> error + f64" where
  "to_float v =
     (case v of
        Float x \<Rightarrow> Inr x
      | Array b \<Rightarrow> (case flat b of [] \<Rightarrow> Inl TypeError | [x] \<Rightarrow> Inr x | _ \<Rightarrow> Inl ValueError))"

definition to_float_old :: "pyvalue \<Rightarrow> error + f64" where
  "to_float_old v =
     (case v of
        Float x \<Rightarrow> Inr x
      | Array b \<Rightarrow> (case flat b of [x] \<Rightarrow> Inr x | _ \<Rightarrow> Inl TypeError))"

text \<open>
  \<^verbatim>\<open>numpy.full(shape, value, dtype=float)\<close>: a new array.  An array value of another shape
  raises in the model (numpy would broadcast some of them).
\<close>

definition full_of :: "nat list \<Rightarrow> pyvalue \<Rightarrow> error + ndarray" where
  "full_of sh v =
     (case v of
        Float x \<Rightarrow> Inr (full sh x)
      | Array b \<Rightarrow> if shape b = sh then Inr (NDArray sh (flat b)) else Inl ValueError)"

text \<open>A new array object in the store, and the reference to it.\<close>

definition alloc :: "ndarray \<Rightarrow> statesequence \<Rightarrow> addr \<times> statesequence" where
  "alloc a st =
     (next_addr st, st\<lparr>store := (store st)(next_addr st := Some a), next_addr := Suc (next_addr st)\<rparr>)"

definition setnew :: "pyvalue \<Rightarrow> statesequence \<Rightarrow> state_outcome" where
  "setnew v st =
     (if NDIM st = 0 then
        (case to_float v of
           Inl e \<Rightarrow> (Some e, st)
         | Inr x \<Rightarrow> (None, st\<lparr>fast_new := PyFloat x\<rparr>))
      else
        (case state_shape st of
           Inl e \<Rightarrow> (Some e, st)
         | Inr sh \<Rightarrow>
             (case full_of sh v of
                Inl e \<Rightarrow> (Some e, st)
              | Inr a \<Rightarrow> (case alloc a st of (r, st') \<Rightarrow> (None, st'\<lparr>fast_new := PyArray r\<rparr>)))))"

definition setold :: "pyvalue \<Rightarrow> statesequence \<Rightarrow> state_outcome" where
  "setold v st =
     (if NDIM st = 0 then
        (case to_float_old v of
           Inl e \<Rightarrow> (Some e, st)
         | Inr x \<Rightarrow> (None, st\<lparr>fast_old := PyFloat x\<rparr>))
      else
        (case state_shape st of
           Inl e \<Rightarrow> (Some e, st)
         | Inr sh \<Rightarrow>
             (case full_of sh v of
                Inl e \<Rightarrow> (Some e, st)
              | Inr a \<Rightarrow> (case alloc a st of (r, st') \<Rightarrow> (None, st'\<lparr>fast_old := PyArray r\<rparr>)))))"

text \<open>
  \<^verbatim>\<open>StateSequence._setshape\<close>: \<^verbatim>\<open>Sequence._setshape\<close> stores a new array filled with the
  initial value, or the float 0.0 for a 0-dimensional sequence; then the old values
  become \<^verbatim>\<open>self.new.copy()\<close>, a new array again.
\<close>

definition state_setshape :: "nat list \<Rightarrow> statesequence \<Rightarrow> state_outcome" where
  "state_setshape sh st =
     (if NDIM st \<noteq> 0 then
        (if length sh = NDIM st then
           (case alloc (full sh (initv st)) st of
              (r, st1) \<Rightarrow>
                (case alloc (full sh (initv st)) (st1\<lparr>fast_new := PyArray r\<rparr>) of
                   (r', st2) \<Rightarrow> (None, st2\<lparr>fast_old := PyArray r'\<rparr>)))
         else (Some ValueError, st))
      else if sh \<noteq> [] then (Some ValueError, st)
      else setnew (Float zero) st)"

text \<open>
  \<^verbatim>\<open>new2old\<close>: \<^verbatim>\<open>self.old[:] = self.new[:]\<close> writes the new values into the array of the old
  ones; for a 0-dimensional sequence \<^verbatim>\<open>self.old = self.new\<close> goes through \<^verbatim>\<open>_setold\<close>.
\<close>

definition new2old :: "statesequence \<Rightarrow> state_outcome" where
  "new2old st =
     (if NDIM st \<noteq> 0 then
        (case getnew st of
           Inl e \<Rightarrow> (Some e, st)
         | Inr (Float _) \<Rightarrow> (Some IndexError, st)
         | Inr (Array a) \<Rightarrow>
             (case fast_old st of
                PyNone \<Rightarrow> (Some (RuntimeError NoValues), st)
              | PyFloat _ \<Rightarrow> (Some IndexError, st)
              | PyArray r \<Rightarrow>
                  (case store st r of
                     None \<Rightarrow> (Some (RuntimeError NoValues), st)
                   | Some b \<Rightarrow>
                       (case setslice_all (Array b) (Array a) of
                          Inl e \<Rightarrow> (Some e, st)
                        | Inr (Float _) \<Rightarrow> (Some TypeError, st)
                        | Inr (Array b') \<Rightarrow> (None, st\<lparr>store := (store st)(r := Some b')\<rparr>)))))
      else
        (case getnew st of
           Inl e \<Rightarrow> (Some e, st)
         | Inr v \<Rightarrow> setold v st))"

text \<open>
  A write into the values in place, \<^verbatim>\<open>seq.new[idx] = v\<close> and \<^verbatim>\<open>seq.old[idx] = v\<close>: the getter
  returns the array object itself, and the item assignment changes it.
\<close>

definition setitem_at :: "attr \<Rightarrow> int \<Rightarrow> pyvalue \<Rightarrow> statesequence \<Rightarrow> state_outcome" where
  "setitem_at x idx v st =
     (case x of
        PyNone \<Rightarrow> (Some (RuntimeError NoValues), st)
      | PyFloat _ \<Rightarrow> (Some TypeError, st)
      | PyArray r \<Rightarrow>
          (case store st r of
             None \<Rightarrow> (Some (RuntimeError NoValues), st)
           | Some a \<Rightarrow>
               (case setitem a idx v of
                  Inl e \<Rightarrow> (Some e, st)
                | Inr a' \<Rightarrow> (None, st\<lparr>store := (store st)(r := Some a')\<rparr>))))"

datatype stateop =
    SetShape "nat list" | SetNew pyvalue | SetOld pyvalue | New2Old
  | SetItemNew int pyvalue | SetItemOld int pyvalue

definition apply_stateop :: "stateop \<Rightarrow> statesequence \<Rightarrow> state_outcome" where
  "apply_stateop c st =
     (case c of
        SetShape sh \<Rightarrow> state_setshape sh st
      | SetNew v \<Rightarrow> setnew v st
      | SetOld v \<Rightarrow> setold v st
      | New2Old \<Rightarrow> new2old st
      | SetItemNew idx v \<Rightarrow> setitem_at (fast_new st) idx v st
      | SetItemOld idx v \<Rightarrow> setitem_at (fast_old st) idx v st)"

fun run_stateops :: "stateop list \<Rightarrow> statesequence \<Rightarrow> statesequence" where
  "run_stateops [] st = st"
| "run_stateops (c # cs) st = run_stateops cs (snd (apply_stateop c st))"

text \<open>
  The old and the new values of a sequence: floats for a 0-dimensional sequence, otherwise
  both missing or two different arrays of one shape in the store.
\<close>

definition separate :: "statesequence \<Rightarrow> bool" where
  "separate st =
     (if NDIM st = 0 then (\<exists>x y. fast_new st = PyFloat x \<and> fast_old st = PyFloat y)
      else (fast_new st = PyNone \<and> fast_old st = PyNone)
           \<or> (\<exists>r r' a b. fast_new st = PyArray r \<and> fast_old st = PyArray r' \<and> r \<noteq> r'
                  \<and> r < next_addr st \<and> r' < next_addr st
                  \<and> store st r = Some a \<and> store st r' = Some b \<and> shape a = shape b))"

text \<open>A state sequence of one dimension with the shape 2 and the new values 1.0 and nan.\<close>

definition sm :: statesequence where
  "sm = run_stateops [SetShape [2], SetNew (Array (NDArray [2] [one, nan]))] (connect_state 1 nan)"

section \<open>The classes of sequences: access to the value and the shape\<close>

text \<open>
  The classes that override the properties \<^verbatim>\<open>value\<close> and \<^verbatim>\<open>shape\<close> of \<^verbatim>\<open>Sequence\<close>: the
  \<^verbatim>\<open>IOSequence\<close> classes (the node sequences \<^verbatim>\<open>Sim\<close> and \<^verbatim>\<open>Obs\<close> among them),
  \<^verbatim>\<open>LogSequence\<close>, \<^verbatim>\<open>AideSequence\<close> and \<^verbatim>\<open>LinkSequence\<close>.
\<close>

datatype seqclass = IOClass seqkind | LogSequence | AideSequence | LinkSequence

text \<open>
  What the attribute named after the sequence holds on the \<^verbatim>\<open>FastAccess\<close> object: \<^verbatim>\<open>None\<close>, a
  float, an array, the \<^verbatim>\<open>Double\<close> cell of a node sequence, the pointer of a 0-dimensional
  link sequence to a shared cell, or the pointers of a 1-dimensional one.
\<close>

datatype held =
    HNone | HFloat f64 | HArray ndarray | HDouble f64
  | HPDouble addr | HPPDouble "addr option list"

text \<open>
  A sequence connected to its subgroup: class, \<^verbatim>\<open>NDIM\<close>, \<^verbatim>\<open>INIT\<close>, the attribute, and the
  values of the shared cells that the pointers of link sequences refer to.
\<close>

record sequence =
  seq_cls :: seqclass
  seq_NDIM :: nat
  seq_INIT :: "f64 option"
  held_value :: held
  cell_values :: "addr \<Rightarrow> f64"

type_synonym seq_outcome = "error option \<times> sequence"

definition is_node :: "seqclass \<Rightarrow> bool" where
  "is_node c = (c = IOClass Sim \<or> c = IOClass Obs)"

text \<open>\<^verbatim>\<open>Sequence._getvalue\<close>, \<^verbatim>\<open>NodeSequence._getvalues\<close> and \<^verbatim>\<open>LinkSequence._getvalue\<close>.\<close>

definition Sequence_getvalue :: "sequence \<Rightarrow> error + pyvalue" where
  "Sequence_getvalue s =
     (case held_value s of
        HNone \<Rightarrow> Inl (RuntimeError NoValues)
      | HFloat x \<Rightarrow> Inr (Float x)
      | HArray a \<Rightarrow> Inr (Array a)
      | HDouble x \<Rightarrow> Inr (Float x)
      | _ \<Rightarrow> Inl TypeError)"

definition LinkSequence_getvalue :: "sequence \<Rightarrow> error + pyvalue" where
  "LinkSequence_getvalue s = Inl NotImplementedError"

definition getvalue :: "sequence \<Rightarrow> error + pyvalue" where
  "getvalue s =
     (if seq_cls s = LinkSequence then LinkSequence_getvalue s else Sequence_getvalue s)"

text \<open>
  \<^verbatim>\<open>Sequence._setvalue\<close>, \<^verbatim>\<open>NodeSequence._setvalues\<close> (the number is written into the
  \<^verbatim>\<open>Double\<close> cell) and \<^verbatim>\<open>LinkSequence._setvalue\<close>.
\<close>

definition Sequence_setvalue :: "pyvalue \<Rightarrow> sequence \<Rightarrow> seq_outcome" where
  "Sequence_setvalue v s =
     (if seq_NDIM s = 0 then
        (case to_float v of
           Inl e \<Rightarrow> (Some e, s)
         | Inr x \<Rightarrow> (None, s\<lparr>held_value := HFloat x\<rparr>))
      else
        (case Sequence_getvalue s of
           Inl e \<Rightarrow> (Some e, s)
         | Inr cur \<Rightarrow>
             (case full_of (case cur of Float _ \<Rightarrow> [] | Array a \<Rightarrow> shape a) v of
                Inl e \<Rightarrow> (Some e, s)
              | Inr a \<Rightarrow> (None, s\<lparr>held_value := HArray a\<rparr>))))"

definition NodeSequence_setvalues :: "pyvalue \<Rightarrow> sequence \<Rightarrow> seq_outcome" where
  "NodeSequence_setvalues v s =
     (case held_value s of
        HDouble _ \<Rightarrow>
          (case to_float v of
             Inl e \<Rightarrow> (Some e, s)
           | Inr x \<Rightarrow> (None, s\<lparr>held_value := HDouble x\<rparr>))
      | _ \<Rightarrow> (Some TypeError, s))"

definition LinkSequence_setvalue :: "pyvalue \<Rightarrow> sequence \<Rightarrow> seq_outcome" where
  "LinkSequence_setvalue v s = (Some NotImplementedError, s)"

definition setvalue :: "pyvalue \<Rightarrow> sequence \<Rightarrow> seq_outcome" where
  "setvalue v s =
     (if seq_cls s = LinkSequence then LinkSequence_setvalue v s
      else if is_node (seq_cls s) then NodeSequence_setvalues v s
      else Sequence_setvalue v s)"

text \<open>
  \<^verbatim>\<open>__call__\<close> assigns \<^verbatim>\<open>self.values\<close>.  \<^verbatim>\<open>__getitem__\<close> and \<^verbatim>\<open>__setitem__\<close> read
  \<^verbatim>\<open>self.values\<close>; every exception there leads to \<^verbatim>\<open>_raiseitemexception\<close>, which reads
  \<^verbatim>\<open>self.values\<close> again and otherwise raises the exception anew.
\<close>

definition seq_call :: "pyvalue \<Rightarrow> sequence \<Rightarrow> seq_outcome" where
  "seq_call args s = setvalue args s"

definition raiseitemexception :: "sequence \<Rightarrow> error \<Rightarrow> error" where
  "raiseitemexception s e = (case getvalue s of Inl e' \<Rightarrow> e' | Inr _ \<Rightarrow> e)"

definition seq_getitem :: "sequence \<Rightarrow> int \<Rightarrow> error + pyvalue" where
  "seq_getitem s key =
     (case getvalue s of
        Inl e \<Rightarrow> Inl (raiseitemexception s e)
      | Inr (Float _) \<Rightarrow> Inl (raiseitemexception s TypeError)
      | Inr (Array a) \<Rightarrow>
          (case getitem a key of
             Inl e \<Rightarrow> Inl (raiseitemexception s e)
           | Inr x \<Rightarrow> Inr x))"

definition seq_setitem :: "int \<Rightarrow> pyvalue \<Rightarrow> sequence \<Rightarrow> seq_outcome" where
  "seq_setitem key v s =
     (case getvalue s of
        Inl e \<Rightarrow> (Some (raiseitemexception s e), s)
      | Inr (Float _) \<Rightarrow> (Some (raiseitemexception s TypeError), s)
      | Inr (Array a) \<Rightarrow>
          (case setitem a key v of
             Inl e \<Rightarrow> (Some (raiseitemexception s e), s)
           | Inr a' \<Rightarrow> (None, s\<lparr>held_value := HArray a'\<rparr>)))"

text \<open>
  \<^verbatim>\<open>Sequence._setshape\<close>.  The methods of \<^verbatim>\<open>IOSequence\<close> and \<^verbatim>\<open>StateSequence\<close> call it and go
  on with \<^verbatim>\<open>update_fastaccess\<close> and the copy for the old values, which leave the attribute
  as it is.
\<close>

definition Sequence_setshape :: "env \<Rightarrow> nat list \<Rightarrow> sequence \<Rightarrow> seq_outcome" where
  "Sequence_setshape e sh s =
     (if seq_NDIM s \<noteq> 0 then
        (if length sh = seq_NDIM s
         then (None, s\<lparr>held_value := HArray (full sh (initvalue_of e (seq_INIT s)))\<rparr>)
         else (Some ValueError, s))
      else if sh \<noteq> [] then (Some ValueError, s)
      else setvalue (Float zero) s)"

text \<open>
  \<^verbatim>\<open>LinkSequence._setshape\<close> does something for \<^verbatim>\<open>NDIM == 1\<close> only.  Modelled from the spec:
  the class \<^verbatim>\<open>PPDouble\<close> of \<^verbatim>\<open>hydpy.cythons.pointer\<close> is not part of the sources; "a 1-D link
  holds an ordered, fixed-length list of shared cell references", which are unset after
  the shape is set.
\<close>

definition LinkSequence_setshape :: "nat list \<Rightarrow> sequence \<Rightarrow> seq_outcome" where
  "LinkSequence_setshape sh s =
     (if seq_NDIM s = 1 then
        (case sh of
           [n] \<Rightarrow> (None, s\<lparr>held_value := HPPDouble (replicate n None)\<rparr>)
         | _ \<Rightarrow> (Some ValueError, s))
      else (None, s))"

definition setshape :: "env \<Rightarrow> nat list \<Rightarrow> sequence \<Rightarrow> seq_outcome" where
  "setshape e sh s =
     (if seq_cls s = LinkSequence then LinkSequence_setshape sh s else Sequence_setshape e sh s)"

text \<open>
  A 0-dimensional link sequence (an outlet \<open>q\<close>) whose pointer refers to the shared cell 0,
  which holds 1.0.
\<close>

definition outlet_q :: sequence where
  "outlet_q = \<lparr>seq_cls = LinkSequence, seq_NDIM = 0, seq_INIT = None,
               held_value = HPDouble 0, cell_values = (\<lambda>_. one)\<rparr>"



definition obs_loaded :: sequence where
  "obs_loaded = \<lparr>seq_cls = IOClass Obs, seq_NDIM = 0, seq_INIT = None,
                  held_value = HFloat one, cell_values = (\<lambda>_. zero)\<rparr>"

section \<open>Properties of the codec\<close>

lemma ndim_update [simp]:
  "ndim (d\<lparr>handle := h\<rparr>) = ndim d"
  "ndim (d\<lparr>disk := c\<rparr>) = ndim d"
  "ndim (d\<lparr>array := r\<rparr>) = ndim d"
  "ndim (d\<lparr>val := v\<rparr>) = ndim d"
  "ndim (d\<lparr>ramflag := b\<rparr>) = ndim d"
  "ndim (d\<lparr>diskflag := b\<rparr>) = ndim d"
  by (simp_all add: ndim_def)

lemma byte_split:
  "ucast (ucast (y :: f64) :: byte) OR push_bit 8 (drop_bit 8 y) = y"
proof (rule bit_word_eqI)
  fix n assume "n < LENGTH(64)"
  then show "bit (ucast (ucast y :: byte) OR push_bit 8 (drop_bit 8 y) :: f64) n = bit y n"
    by (cases "n < 8") (auto simp: bit_simps)
qed

lemma unpack_d_from:
  "i \<le> 8 \<Longrightarrow>
   unpack_d (map (\<lambda>k. ucast (drop_bit (8 * k) x)) [i..<8]) = drop_bit (8 * i) x"
proof (induction "8 - i" arbitrary: i)
  case 0
  then have "i = 8" by simp
  then show ?case by simp
next
  case (Suc n)
  then have lt: "i < 8" by simp
  have IH: "unpack_d (map (\<lambda>k. ucast (drop_bit (8 * k) x)) [Suc i..<8])
              = drop_bit (8 * Suc i) x"
    using Suc by simp
  have d: "drop_bit (8 * Suc i) x = drop_bit 8 (drop_bit (8 * i) x)"
    by (simp add: add.commute)
  have "unpack_d (map (\<lambda>k. ucast (drop_bit (8 * k) x)) [i..<8])
          = ucast (ucast (drop_bit (8 * i) x) :: byte)
              OR push_bit 8 (unpack_d (map (\<lambda>k. ucast (drop_bit (8 * k) x)) [Suc i..<8]))"
    using lt by (simp add: upt_conv_Cons)
  also have "\<dots> = drop_bit (8 * i) x"
    unfolding IH d by (rule byte_split)
  finally show ?case .
qed

lemma unpack_pack_d [simp]: "unpack_d (pack_d x) = x"
  using unpack_d_from [of 0 x] by (simp add: pack_d_def)

lemma length_pack_d [simp]: "length (pack_d x) = 8"
  by (simp add: pack_d_def)

lemma length_pack_all [simp]: "length (pack_all xs) = 8 * length xs"
  by (induction xs) (simp_all add: pack_all_def)

lemma unpack_pack_all [simp]: "unpack_all (length xs) (pack_all xs) = xs"
  by (induction xs) (simp_all add: pack_all_def)

lemma unpack_pack_all_append [simp]:
  "unpack_all (length xs) (pack_all xs @ bs) = xs"
  by (induction xs) (simp_all add: pack_all_def)

lemma read_write_at [simp]:
  "read_at (write_at content pos raw) pos (length raw) = raw"
  by (simp add: read_at_def write_at_def)

section \<open>Properties of the storage backend\<close>

lemma seek_position_eq: "seek_position idx ls = idx * (8 * int (prod_list ls))"
proof -
  have "foldl (\<lambda>position length. position * int length) p ls = p * int (prod_list ls)" for p
    by (induction ls arbitrary: p) (simp_all add: mult.assoc)
  then show ?thesis by (simp add: seek_position_def mult.assoc mult.left_commute)
qed

lemma openfiles_one_position:
  "openfiles_one idx d = Inr d' \<Longrightarrow> diskflag d' \<Longrightarrow>
   \<exists>p. handle d' = Opened p \<and> int p = idx * int (recordSize d')"
  by (auto simp: openfiles_one_def seek_position_eq recordSize_def Let_def
           split: if_splits option.splits)

lemma openfiles_position_aux:
  "openfiles idx fa = Inr fa' \<Longrightarrow> (name, d') \<in> set fa' \<Longrightarrow> diskflag d' \<Longrightarrow>
   \<exists>p. handle d' = Opened p \<and> int p = idx * int (recordSize d')"
proof (induction fa arbitrary: fa')
  case Nil
  then show ?case by simp
next
  case (Cons x fa)
  obtain n d where x: "x = (n, d)" by (cases x)
  from Cons.prems(1) obtain d1 rest' where
    one: "openfiles_one idx d = Inr d1" and rest: "openfiles idx fa = Inr rest'"
    and fa': "fa' = (n, d1) # rest'"
    by (auto simp: x split: sum.splits)
  from Cons.prems(2) fa' consider "(name, d') = (n, d1)" | "(name, d') \<in> set rest'" by auto
  then show ?case
  proof cases
    case 1
    then show ?thesis using one Cons.prems(3) openfiles_one_position by blast
  next
    case 2
    then show ?thesis using Cons.IH [OF rest] Cons.prems(3) by blast
  qed
qed

lemma openfiles_succeeds:
  "0 \<le> idx \<Longrightarrow> list_all (\<lambda>x. diskflag (snd x) \<longrightarrow> disk (snd x) \<noteq> None) fa \<Longrightarrow>
   \<exists>fa'. openfiles idx fa = Inr fa'"
proof (induction fa)
  case Nil
  then show ?case by simp
next
  case (Cons x fa)
  obtain n d where x: "x = (n, d)" by (cases x)
  have "0 \<le> seek_position idx (lengths d)"
    using Cons.prems(1) by (simp add: seek_position_eq)
  then have "\<exists>d1. openfiles_one idx d = Inr d1"
    using Cons.prems(2) by (auto simp: x openfiles_one_def Let_def)
  moreover have "\<exists>fa'. openfiles idx fa = Inr fa'" using Cons by simp
  ultimately show ?case by (auto simp: x)
qed

lemma py_index_bound: "py_index t idx = Inr i \<Longrightarrow> i < t"
  by (auto simp: py_index_def split: if_splits)

lemma getitem_setitem:
  assumes set: "setitem a idx v = Inr a'"
    and sh: "shape a \<noteq> []" and len: "length (flat a) = prod_list (shape a)"
    and v: "case v of Float _ \<Rightarrow> tl (shape a) = []
            | Array b \<Rightarrow> shape b = tl (shape a) \<and> tl (shape a) \<noteq> []
                          \<and> length (flat b) = prod_list (tl (shape a))"
  shows "getitem a' idx = Inr v"
proof -
  obtain t rest where a: "shape a = t # rest" using sh by (cases "shape a") auto
  from set a obtain i where i: "py_index t idx = Inr i"
    by (auto simp: setitem_def split: sum.splits)
  have it: "i < t" using i by (rule py_index_bound)
  define rowlen where "rowlen = prod_list rest"
  have le: "i * rowlen + rowlen \<le> length (flat a)"
  proof -
    have "Suc i * rowlen \<le> t * rowlen" using it by (intro mult_le_mono1) simp
    then show ?thesis using len a by (simp add: rowlen_def)
  qed
  have l1: "length (take (i * rowlen) (flat a)) = i * rowlen" using le by simp
  show ?thesis
  proof (cases v)
    case (Float x)
    then have rest: "rest = []" using v a by simp
    then have r1: "rowlen = 1" by (simp add: rowlen_def)
    have a': "a' = NDArray (t # rest) (take i (flat a) @ [x] @ drop (i + 1) (flat a))"
      using set a i Float r1 by (simp add: setitem_def rowlen_def)
    have "length (take i (flat a)) = i" using l1 r1 by simp
    then have "(take i (flat a) @ [x] @ drop (i + 1) (flat a)) ! i = x"
      by (simp add: nth_append)
    then show ?thesis using a' i rest Float by (simp add: getitem_def)
  next
    case (Array b)
    then have b: "shape b = rest" "rest \<noteq> []" "length (flat b) = rowlen"
      using v a by (simp_all add: rowlen_def)
    have a': "a' = NDArray (t # rest)
                (take (i * rowlen) (flat a) @ flat b @ drop ((i + 1) * rowlen) (flat a))"
      using set a i Array b by (simp add: setitem_def rowlen_def Let_def)
    have "take rowlen (drop (i * rowlen)
            (take (i * rowlen) (flat a) @ flat b @ drop ((i + 1) * rowlen) (flat a))) = flat b"
      using l1 b(3) by simp
    then have "getitem a' idx = Inr (Array (NDArray rest (flat b)))"
      using a' i b(2) by (simp add: getitem_def rowlen_def)
    moreover have "NDArray rest (flat b) = b" using b(1) by (cases b) simp
    ultimately show ?thesis using Array by simp
  qed
qed

lemma store_values_same:
  assumes "consistent d" "val d' = val d" "lengths d' = lengths d"
  shows "\<exists>d''. store_values (val d) d' = Inr d'' \<and> val d'' = val d"
proof (cases "val d")
  case (Float x)
  then have "ndim d' = 0" using assms by (simp add: consistent_def value_fits_def array_fits_def ndim_def)
  then show ?thesis by (simp add: store_values_def)
next
  case (Array a)
  then have n: "ndim d' \<noteq> 0" using assms by (simp add: consistent_def value_fits_def array_fits_def ndim_def)
  have "setslice_all (val d') (val d) = Inr (val d)"
    using Array assms by (simp add: setslice_all_def)
  then show ?thesis using n by (simp add: store_values_def)
qed

lemma ram_roundtrip_one:
  assumes c: "consistent d" and nd: "\<not> diskflag d"
    and s: "savedata_one i d = Inr (i', d1)"
    and l: "loaddata_one i d1 = Inr (i'', d2)"
  shows "val d2 = val d \<and> i'' = i'"
proof (cases "ramflag d")
  case False
  from s have "d1 = d" "i' = i" using nd False by (simp_all add: savedata_one_def)
  then show ?thesis using l nd False by (simp add: loaddata_one_def)
next
  case True
  have s': "(case array d of None \<Rightarrow> Inl TypeError
             | Some a \<Rightarrow> (case setitem a i (val d) of Inl e \<Rightarrow> Inl e
                 | Inr a' \<Rightarrow> Inr (i, d\<lparr>array := Some a'\<rparr>))) = Inr (i', d1)"
    using s nd True by (simp add: savedata_one_def)
  then obtain a where a: "array d = Some a" by (cases "array d") simp_all
  with s' obtain a' where a': "setitem a i (val d) = Inr a'"
    by (cases "setitem a i (val d)") simp_all
  from s' a a' have d1: "d1 = d\<lparr>array := Some a'\<rparr>" and i': "i' = i" by simp_all
  have "getitem a' i = Inr (val d)"
  proof (rule getitem_setitem [OF a'])
    show "shape a \<noteq> []" "length (flat a) = prod_list (shape a)"
      using c a by (simp_all add: consistent_def value_fits_def array_fits_def)
    show "case val d of Float _ \<Rightarrow> tl (shape a) = []
            | Array b \<Rightarrow> shape b = tl (shape a) \<and> tl (shape a) \<noteq> []
                          \<and> length (flat b) = prod_list (tl (shape a))"
      using c a by (auto simp: consistent_def value_fits_def array_fits_def split: pyvalue.splits)
  qed
  moreover obtain d'' where "store_values (val d) d1 = Inr d''" "val d'' = val d"
    using store_values_same [OF c, of d1] d1 by auto
  ultimately have "loaddata_one i d1 = Inr (i, d'')"
    using d1 nd True by (simp add: loaddata_one_def)
  then show ?thesis using l i' \<open>val d'' = val d\<close> by simp
qed

lemma pack_actual_handle [simp]: "pack_actual (d\<lparr>handle := h\<rparr>) = pack_actual d"
  by (simp add: pack_actual_def ndim_def cong: pyvalue.case_cong if_cong)

lemma pack_actual_length:
  "consistent d \<Longrightarrow> pack_actual d = Inr raw \<Longrightarrow> length raw = prod_list (lengths d) * 8"
  by (cases "val d") (auto simp: pack_actual_def consistent_def value_fits_def array_fits_def ndim_def split: if_splits)

lemma unpack_packed:
  assumes c: "consistent d" and p: "pack_actual d = Inr raw"
  shows "unpack_values (lengths d) raw = val d"
proof (cases "val d")
  case (Float x)
  then have "lengths d = []" "raw = pack_d x"
    using c p by (simp_all add: consistent_def value_fits_def array_fits_def pack_actual_def ndim_def)
  then show ?thesis using Float by (simp add: unpack_values_def numeral_eq_Suc)
next
  case (Array a)
  then have a: "shape a = lengths d" "lengths d \<noteq> []" "length (flat a) = prod_list (lengths d)"
    using c by (simp_all add: consistent_def value_fits_def array_fits_def)
  then have "raw = pack_all (flat a)" using p Array by (simp add: pack_actual_def ndim_def)
  then have "unpack_all (prod_list (lengths d)) raw = flat a"
    using a(3) unpack_pack_all [of "flat a"] by simp
  moreover have "NDArray (lengths d) (flat a) = a" using a(1) by (cases a) simp
  ultimately show ?thesis using Array a(2) by (simp add: unpack_values_def)
qed

lemma disk_roundtrip_one:
  assumes c: "consistent d"
    and o1: "openfiles_one i d = Inr d1"
    and s: "savedata_one j d1 = Inr (j', d2)"
    and cl: "closefiles_one d2 = Inr d3"
    and o2: "openfiles_one i d3 = Inr d4"
    and l: "loaddata_one j d4 = Inr (j'', d5)"
  shows "val d5 = val d \<and> j'' = j'"
proof (cases "diskflag d")
  case False
  have "d1 = d" using o1 False by (simp add: openfiles_one_def)
  moreover have "\<not> diskflag d2"
    using s False \<open>d1 = d\<close>
    by (cases "ramflag d"; cases "array d"; cases "setitem (the (array d)) j (val d)")
       (auto simp: savedata_one_def)
  then have "d3 = d2" using cl by (simp add: closefiles_one_def)
  moreover have "d4 = d3" using o2 \<open>\<not> diskflag d2\<close> \<open>d3 = d2\<close> by (simp add: openfiles_one_def)
  ultimately show ?thesis using ram_roundtrip_one [OF c False, of j j' d2 j'' d5] s l by simp
next
  case True
  define P where "P = nat (seek_position i (lengths d))"
  from o1 True obtain content where content: "disk d = Some content"
    and d1: "d1 = d\<lparr>handle := Opened P\<rparr>"
    by (cases "disk d") (auto simp: openfiles_one_def Let_def P_def split: if_splits)
  have c1: "consistent d1" using c d1 by (simp add: consistent_def value_fits_def array_fits_def)
  have df1: "diskflag d1" using True d1 by simp
  obtain raw where raw: "pack_actual d1 = Inr raw"
    using s df1 by (cases "pack_actual d1") (simp_all add: savedata_one_def)
  have "savedata_one j d1 = Inr (idx_after j (ndim d1),
          d1\<lparr>disk := Some (write_at content P raw), handle := Opened (P + length raw)\<rparr>)"
    using raw df1 d1 content by (simp add: savedata_one_def)
  with s have d2: "d2 = d1\<lparr>disk := Some (write_at content P raw), handle := Opened (P + length raw)\<rparr>"
    and j': "j' = idx_after j (ndim d1)" by simp_all
  have d3: "d3 = d2\<lparr>handle := Closed\<rparr>" using cl d2 d1 True by (simp add: closefiles_one_def)
  have d4: "d4 = d3\<lparr>handle := Opened P\<rparr>"
    using o2 d3 d2 d1 True by (auto simp: openfiles_one_def Let_def P_def split: if_splits)
  have raw0: "pack_actual d = Inr raw" using raw d1 by simp
  have len: "length raw = prod_list (lengths d) * 8"
    using pack_actual_length [OF c raw0] .
  define W where "W = write_at content P raw"
  have d4e: "d4 = d\<lparr>disk := Some W, handle := Opened P\<rparr>"
    using d1 d2 d3 d4 by (simp add: W_def)
  define V where "V = unpack_values (lengths d) raw"
  have V: "V = val d" unfolding V_def using unpack_packed [OF c raw0] .
  obtain d'' where st: "store_values V (d\<lparr>disk := Some W, handle := Opened (P + length raw)\<rparr>) = Inr d''"
    and v: "val d'' = val d"
    using store_values_same [OF c, of "d\<lparr>disk := Some W, handle := Opened (P + length raw)\<rparr>"]
    unfolding V by auto
  have rd: "read_at W P (prod_list (lengths d) * 8) = raw"
    using read_write_at [of content P raw] len by (simp add: W_def)
  have "loaddata_one j (d\<lparr>disk := Some W, handle := Opened P\<rparr>)
          = Inr (idx_after j (ndim d), d'')"
    unfolding loaddata_one_def Let_def
    using st by (simp add: True rd len V_def [symmetric])
  then show ?thesis using l v j' d1 d4e by simp
qed

lemma savedata_one_frame:
  assumes "savedata_one j d = Inr (j', d2)"
  shows "j' = (if diskflag d then idx_after j (ndim d) else j)
         \<and> diskflag d2 = diskflag d \<and> ndim d2 = ndim d"
proof (cases "diskflag d")
  case True
  then obtain raw where raw: "pack_actual d = Inr raw"
    using assms by (cases "pack_actual d") (simp_all add: savedata_one_def)
  show ?thesis
  proof (cases "handle d")
    case (Opened pos)
    then show ?thesis using assms True raw
      by (cases "disk d") (auto simp: savedata_one_def)
  qed (use assms True raw in \<open>simp_all add: savedata_one_def\<close>)
next
  case False
  show ?thesis
  proof (cases "ramflag d")
    case True
    then obtain a where a: "array d = Some a"
      using assms False by (cases "array d") (simp_all add: savedata_one_def)
    then obtain a' where "setitem a j (val d) = Inr a'"
      using assms False True by (cases "setitem a j (val d)") (simp_all add: savedata_one_def)
    then show ?thesis using assms False True a by (auto simp: savedata_one_def)
  next
    case False
    then show ?thesis using assms \<open>\<not> diskflag d\<close> by (auto simp: savedata_one_def)
  qed
qed

lemma store_values_frame:
  "store_values v d = Inr d' \<Longrightarrow> diskflag d' = diskflag d \<and> ndim d' = ndim d"
  by (cases "setslice_all (val d) v") (auto simp: store_values_def split: if_splits)

lemma loaddata_one_idx:
  assumes "loaddata_one j d = Inr (j', d2)"
  shows "j' = (if diskflag d then idx_after j (ndim d) else j)"
proof (cases "diskflag d")
  case True
  show ?thesis
  proof (cases "handle d")
    case (Opened pos)
    then obtain content where content: "disk d = Some content"
      using assms True by (cases "disk d") (simp_all add: loaddata_one_def)
    define raw where "raw = read_at content pos (prod_list (lengths d) * 8)"
    have len: "length raw = prod_list (lengths d) * 8"
      using assms True Opened content
      by (cases "length raw = prod_list (lengths d) * 8")
         (simp_all add: loaddata_one_def Let_def raw_def)
    then show ?thesis using assms True Opened content
      by (cases "store_values (unpack_values (lengths d) raw) (d\<lparr>handle := Opened (pos + length raw)\<rparr>)")
         (simp_all add: loaddata_one_def Let_def raw_def)
  qed (use assms True in \<open>simp_all add: loaddata_one_def\<close>)
next
  case False
  show ?thesis
  proof (cases "ramflag d")
    case True
    then obtain a where a: "array d = Some a"
      using assms False by (cases "array d") (simp_all add: loaddata_one_def)
    then obtain v where v: "getitem a j = Inr v"
      using assms False True by (cases "getitem a j") (simp_all add: loaddata_one_def)
    then show ?thesis using assms False True a
      by (cases "store_values v d") (simp_all add: loaddata_one_def)
  next
    case False
    then show ?thesis using assms \<open>\<not> diskflag d\<close> by (simp add: loaddata_one_def)
  qed
qed

lemma idx_thread:
  assumes "savedata_one j d = Inr (j', d2)" "loaddata_one j d2 = Inr (j'', d3)"
  shows "j'' = j'"
  using savedata_one_frame [OF assms(1)] loaddata_one_idx [OF assms(2)] by simp

lemma ram_roundtrip_aux:
  assumes "list_all (\<lambda>x. consistent (snd x)) fa"
    and "savedata j fa = Inr fa2" and "loaddata j fa2 = Inr fa3"
  shows "list_all2 (\<lambda>x y. fst y = fst x \<and> (\<not> diskflag (snd x) \<longrightarrow> val (snd y) = val (snd x))) fa fa3"
  using assms
proof (induction fa arbitrary: j fa2 fa3)
  case Nil
  then show ?case by simp
next
  case (Cons x fa)
  obtain n d where x: "x = (n, d)" by (cases x)
  from Cons.prems(2) obtain j1 d2 where one: "savedata_one j d = Inr (j1, d2)"
    by (cases "savedata_one j d") (auto simp: x)
  with Cons.prems(2) obtain r2 where r2: "savedata j1 fa = Inr r2" and fa2: "fa2 = (n, d2) # r2"
    by (cases "savedata j1 fa") (auto simp: x)
  from Cons.prems(3) obtain j2 d3 where lone: "loaddata_one j d2 = Inr (j2, d3)"
    by (cases "loaddata_one j d2") (auto simp: fa2)
  have j2: "j2 = j1" using idx_thread [OF one lone] .
  with Cons.prems(3) lone obtain r3 where r3: "loaddata j1 r2 = Inr r3" and fa3: "fa3 = (n, d3) # r3"
    by (cases "loaddata j1 r2") (auto simp: fa2)
  have "\<not> diskflag d \<longrightarrow> val d3 = val d"
    using ram_roundtrip_one [OF _ _ one lone] Cons.prems(1) by (simp add: x)
  moreover have "list_all2 (\<lambda>x y. fst y = fst x \<and> (\<not> diskflag (snd x) \<longrightarrow> val (snd y) = val (snd x))) fa r3"
    using Cons.IH [OF _ r2 r3] Cons.prems(1) by simp
  ultimately show ?case by (simp add: x fa3)
qed

lemma pack_consts:
  "pack_d zero = [0,0,0,0,0,0,0,0]"
  "pack_d one = [0,0,0,0,0,0,0xF0,0x3F]"
  "pack_d nan = [0,0,0,0,0,0,0xF8,0x7F]"
  by (simp_all add: pack_d_def zero_def one_def nan_def upt_rec)

lemma disk_roundtrip_aux:
  assumes "list_all (\<lambda>x. consistent (snd x)) fa"
    and "openfiles i fa = Inr f1" and "savedata j f1 = Inr f2" and "closefiles f2 = Inr f3"
    and "openfiles i f3 = Inr f4" and "loaddata j f4 = Inr f5"
  shows "list_all2 (\<lambda>x y. fst y = fst x \<and> val (snd y) = val (snd x)) fa f5"
  using assms
proof (induction fa arbitrary: j f1 f2 f3 f4 f5)
  case Nil
  then show ?case by simp
next
  case (Cons x fa)
  obtain n d where x: "x = (n, d)" by (cases x)
  from Cons.prems(2) obtain d1 where o1: "openfiles_one i d = Inr d1"
    by (cases "openfiles_one i d") (auto simp: x)
  with Cons.prems(2) obtain r1 where r1: "openfiles i fa = Inr r1" and f1: "f1 = (n, d1) # r1"
    by (cases "openfiles i fa") (auto simp: x)
  from Cons.prems(3) obtain j1 d2 where s: "savedata_one j d1 = Inr (j1, d2)"
    by (cases "savedata_one j d1") (auto simp: f1)
  with Cons.prems(3) obtain r2 where r2: "savedata j1 r1 = Inr r2" and f2: "f2 = (n, d2) # r2"
    by (cases "savedata j1 r1") (auto simp: f1)
  from Cons.prems(4) obtain d3 where cl: "closefiles_one d2 = Inr d3"
    by (cases "closefiles_one d2") (auto simp: f2)
  with Cons.prems(4) obtain r3 where r3: "closefiles r2 = Inr r3" and f3: "f3 = (n, d3) # r3"
    by (cases "closefiles r2") (auto simp: f2)
  from Cons.prems(5) obtain d4 where o2: "openfiles_one i d3 = Inr d4"
    by (cases "openfiles_one i d3") (auto simp: f3)
  with Cons.prems(5) obtain r4 where r4: "openfiles i r3 = Inr r4" and f4: "f4 = (n, d4) # r4"
    by (cases "openfiles i r3") (auto simp: f3)
  from Cons.prems(6) obtain j2 d5 where l: "loaddata_one j d4 = Inr (j2, d5)"
    by (cases "loaddata_one j d4") (auto simp: f4)
  have c: "consistent d" using Cons.prems(1) by (simp add: x)
  have rt: "val d5 = val d \<and> j2 = j1" using disk_roundtrip_one [OF c o1 s cl o2 l] .
  with Cons.prems(6) l obtain r5 where r5: "loaddata j1 r4 = Inr r5" and f5: "f5 = (n, d5) # r5"
    by (cases "loaddata j1 r4") (auto simp: f4)
  have "list_all2 (\<lambda>x y. fst y = fst x \<and> val (snd y) = val (snd x)) fa r5"
    using Cons.IH [OF _ r1 r2 r3 r4 r5] Cons.prems(1) by simp
  then show ?case using rt by (simp add: x f5)
qed

text \<open>
  C2.  For every sequence whose disk flag is active, \<^verbatim>\<open>openfiles(idx)\<close> leaves the file
  handle at byte offset \<open>idx\<close> times the record size, the record size being 8 times the
  product of the per-axis lengths (8 for a scalar): the axis lengths enter the position
  once.  The call succeeds for every non-negative index when the files exist.
\<close>

theorem openfiles_position:
  "(0 \<le> idx \<and> list_all (\<lambda>x. diskflag (snd x) \<longrightarrow> disk (snd x) \<noteq> None) fa
      \<longrightarrow> (\<exists>fa'. openfiles idx fa = Inr fa'))
   \<and> (openfiles idx fa = Inr fa' \<and> (name, d') \<in> set fa' \<and> diskflag d'
      \<longrightarrow> (\<exists>p. handle d' = Opened p \<and> int p = idx * int (recordSize d')
               \<and> recordSize d' = 8 * prod_list (lengths d')))"
  using openfiles_succeeds [of idx fa] openfiles_position_aux [of idx fa fa' name d']
  by (auto simp: recordSize_def)

theorem openfiles_position_witness:
  "(0::int) \<le> 4 \<and> list_all (\<lambda>x. diskflag (snd x) \<longrightarrow> disk (snd x) \<noteq> None) [(''qpin'', qpin)]
   \<and> openfiles 4 [(''qpin'', qpin)] = Inr [(''qpin'', qpin\<lparr>handle := Opened 192\<rparr>)]
   \<and> diskflag (qpin\<lparr>handle := Opened 192\<rparr>)
   \<and> (\<exists>p. handle (qpin\<lparr>handle := Opened 192\<rparr>) = Opened p \<and> int p = 4 * int (recordSize qpin)
         \<and> recordSize qpin = 8 * prod_list (lengths qpin))"
proof -
  have o: "openfiles 4 [(''qpin'', qpin)] = Inr [(''qpin'', qpin\<lparr>handle := Opened 192\<rparr>)]"
    by (simp add: qpin_def openfiles_one_def seek_position_def)
  have df: "diskflag (qpin\<lparr>handle := Opened 192\<rparr>)" by (simp add: qpin_def)
  show ?thesis
    using o df openfiles_position [of 4 "[(''qpin'', qpin)]" "[(''qpin'', qpin\<lparr>handle := Opened 192\<rparr>)]"
      "''qpin''" "qpin\<lparr>handle := Opened 192\<rparr>"]
    by (simp add: recordSize_def qpin_def)
qed

text \<open>
  C1.  As stated the claim fails in disk mode: \<^verbatim>\<open>savedata\<close> and \<^verbatim>\<open>loaddata\<close> both work at
  the current position of the one file handle and move it on, and neither uses the step
  index there.  A scalar sequence with the value 1.0 and a file of two records (0.0 and
  not-a-number), opened at step 0: \<^verbatim>\<open>savedata(0)\<close> overwrites the first record,
  \<^verbatim>\<open>loaddata(0)\<close> reads the second, and the live value is not-a-number.
\<close>

theorem save_then_load_disk_counterexample:
  "openfiles 0 [(''q'', runoff)] = Inr [(''q'', runoff\<lparr>handle := Opened 0\<rparr>)]
   \<and> val (runoff\<lparr>handle := Opened 0\<rparr>) = Float one
   \<and> save_then_load 0 [(''q'', runoff\<lparr>handle := Opened 0\<rparr>)]
       = Inr [(''q'', runoff\<lparr>val := Float nan, disk := Some (pack_d one @ pack_d nan),
                               handle := Opened 16\<rparr>)]
   \<and> Float nan \<noteq> Float one"
proof -
  have "openfiles 0 [(''q'', runoff)] = Inr [(''q'', runoff\<lparr>handle := Opened 0\<rparr>)]"
    by (simp add: runoff_def openfiles_one_def seek_position_def)
  moreover have "save_then_load 0 [(''q'', runoff\<lparr>handle := Opened 0\<rparr>)]
       = Inr [(''q'', runoff\<lparr>val := Float nan, disk := Some (pack_d one @ pack_d nan),
                               handle := Opened 16\<rparr>)]"
    by (simp add: save_then_load_def runoff_def savedata_one_def loaddata_one_def
          pack_actual_def ndim_def idx_after_def write_at_def read_at_def store_values_def
          unpack_values_def pack_consts nan_def one_def numeral_eq_Suc)
  ultimately show ?thesis by (simp add: runoff_def nan_def one_def)
qed

text \<open>
  C1, amended.  For sequences whose value has the registered shape: a sequence that is
  not in disk mode has its live value restored, bit for bit, by \<^verbatim>\<open>savedata(i)\<close> followed by
  \<^verbatim>\<open>loaddata(i)\<close>; with the files opened at step \<open>i\<close>, every sequence (RAM or disk, of
  any dimension) has its live value restored when the files are closed and opened again at
  step \<open>i\<close> between the save and the load.
\<close>

theorem save_load_roundtrip:
  assumes "list_all (\<lambda>x. consistent (snd x)) fa"
  shows "(save_then_load i fa = Inr fa'
            \<longrightarrow> list_all2 (\<lambda>x y. fst y = fst x
                    \<and> (\<not> diskflag (snd x) \<longrightarrow> val (snd y) = val (snd x))) fa fa')
         \<and> (openfiles i fa = Inr fa1 \<and> save_reopen_load i fa1 = Inr fa''
            \<longrightarrow> list_all2 (\<lambda>x y. fst y = fst x \<and> val (snd y) = val (snd x)) fa fa'')"
proof (intro conjI impI)
  assume a: "save_then_load i fa = Inr fa'"
  then obtain f2 where "savedata i fa = Inr f2" "loaddata i f2 = Inr fa'"
    by (cases "savedata i fa") (simp_all add: save_then_load_def)
  then show "list_all2 (\<lambda>x y. fst y = fst x
                    \<and> (\<not> diskflag (snd x) \<longrightarrow> val (snd y) = val (snd x))) fa fa'"
    using ram_roundtrip_aux [OF assms] by blast
next
  assume a: "openfiles i fa = Inr fa1 \<and> save_reopen_load i fa1 = Inr fa''"
  then have o: "openfiles i fa = Inr fa1" and b: "save_reopen_load i fa1 = Inr fa''" by simp_all
  from b obtain f2 where f2: "savedata i fa1 = Inr f2"
    by (cases "savedata i fa1") (simp_all add: save_reopen_load_def)
  with b obtain f3 where f3: "closefiles f2 = Inr f3"
    by (cases "closefiles f2") (simp_all add: save_reopen_load_def)
  with b f2 obtain f4 where f4: "openfiles i f3 = Inr f4"
    by (cases "openfiles i f3") (simp_all add: save_reopen_load_def)
  with b f2 f3 have f5: "loaddata i f4 = Inr fa''" by (simp add: save_reopen_load_def)
  show "list_all2 (\<lambda>x y. fst y = fst x \<and> val (snd y) = val (snd x)) fa fa''"
    using disk_roundtrip_aux [OF assms o f2 f3 f4 f5] .
qed


theorem save_load_roundtrip_witness:
  "list_all (\<lambda>x. consistent (snd x)) [(''q'', runoff\<lparr>handle := Opened 0\<rparr>), (''qma'', qma)]
   \<and> save_then_load 0 [(''q'', runoff\<lparr>handle := Opened 0\<rparr>), (''qma'', qma)]
       = Inr [(''q'', runoff\<lparr>val := Float nan, disk := Some (pack_d one @ pack_d nan),
                               handle := Opened 16\<rparr>),
              (''qma'', qma\<lparr>array := Some (NDArray [1, 2] [one, nan])\<rparr>)]
   \<and> list_all2 (\<lambda>x y. fst y = fst x \<and> (\<not> diskflag (snd x) \<longrightarrow> val (snd y) = val (snd x)))
         [(''q'', runoff\<lparr>handle := Opened 0\<rparr>), (''qma'', qma)]
         [(''q'', runoff\<lparr>val := Float nan, disk := Some (pack_d one @ pack_d nan),
                               handle := Opened 16\<rparr>),
          (''qma'', qma\<lparr>array := Some (NDArray [1, 2] [one, nan])\<rparr>)]
   \<and> openfiles 0 [(''q'', runoff\<lparr>handle := Opened 0\<rparr>), (''qma'', qma)]
       = Inr [(''q'', runoff\<lparr>handle := Opened 0\<rparr>), (''qma'', qma)]
   \<and> save_reopen_load 0 [(''q'', runoff\<lparr>handle := Opened 0\<rparr>), (''qma'', qma)]
       = Inr [(''q'', runoff\<lparr>disk := Some (pack_d one @ pack_d nan), handle := Opened 8\<rparr>),
              (''qma'', qma\<lparr>array := Some (NDArray [1, 2] [one, nan])\<rparr>)]
   \<and> list_all2 (\<lambda>x y. fst y = fst x \<and> val (snd y) = val (snd x))
         [(''q'', runoff\<lparr>handle := Opened 0\<rparr>), (''qma'', qma)]
         [(''q'', runoff\<lparr>disk := Some (pack_d one @ pack_d nan), handle := Opened 8\<rparr>),
          (''qma'', qma\<lparr>array := Some (NDArray [1, 2] [one, nan])\<rparr>)]"
proof -
  let ?fa = "[(''q'', runoff\<lparr>handle := Opened 0\<rparr>), (''qma'', qma)]"
  let ?fa' = "[(''q'', runoff\<lparr>val := Float nan, disk := Some (pack_d one @ pack_d nan),
                               handle := Opened 16\<rparr>),
              (''qma'', qma\<lparr>array := Some (NDArray [1, 2] [one, nan])\<rparr>)]"
  let ?fa'' = "[(''q'', runoff\<lparr>disk := Some (pack_d one @ pack_d nan), handle := Opened 8\<rparr>),
              (''qma'', qma\<lparr>array := Some (NDArray [1, 2] [one, nan])\<rparr>)]"
  have c: "list_all (\<lambda>x. consistent (snd x)) ?fa"
    by (simp add: consistent_def value_fits_def array_fits_def runoff_def qma_def)
  have sl: "save_then_load 0 ?fa = Inr ?fa'"
    by (simp add: save_then_load_def runoff_def qma_def savedata_one_def loaddata_one_def
          pack_actual_def ndim_def idx_after_def write_at_def read_at_def store_values_def
          unpack_values_def pack_consts nan_def one_def numeral_eq_Suc
          setitem_def getitem_def py_index_def setslice_all_def)
  have o: "openfiles 0 ?fa = Inr ?fa"
    by (simp add: runoff_def qma_def openfiles_one_def seek_position_def)
  have srl: "save_reopen_load 0 ?fa = Inr ?fa''"
    by (simp add: save_reopen_load_def runoff_def qma_def savedata_one_def loaddata_one_def
          pack_actual_def ndim_def idx_after_def write_at_def read_at_def store_values_def
          unpack_values_def pack_consts nan_def one_def numeral_eq_Suc
          setitem_def getitem_def py_index_def setslice_all_def
          closefiles_one_def openfiles_one_def seek_position_def)
  show ?thesis
    using c sl o srl save_load_roundtrip [OF c, of 0 ?fa' ?fa ?fa''] by simp
qed

section \<open>Properties of the short-series alignment\<close>

lemma mult_Suc_le: "k < (t::nat) \<Longrightarrow> k * l + l \<le> t * l"
proof -
  assume "k < t"
  then have "Suc k * l \<le> t * l" by (intro mult_le_mono1) simp
  then show ?thesis by simp
qed

lemma row_replicate:
  "k < t \<Longrightarrow> take l (drop (k * l) (replicate (t * l) x)) = replicate l (x::'a)"
proof -
  assume "k < t"
  then have "k * l + l \<le> t * l" by (rule mult_Suc_le)
  then have "min l (t * l - k * l) = l" by simp
  then show ?thesis by simp
qed

lemma row_patch:
  assumes A: "length A = lo * l" and B: "length B = m * l"
  shows "take l (drop (k * l) (A @ B @ C)) =
          (if k < lo then take l (drop (k * l) A)
           else if k < lo + m then take l (drop ((k - lo) * l) B)
           else take l (drop ((k - lo - m) * l) C))"
proof -
  consider "k < lo" | "lo \<le> k" "k < lo + m" | "lo + m \<le> k" by linarith
  then show ?thesis
  proof cases
    case 1
    then have "k * l + l \<le> lo * l" by (rule mult_Suc_le)
    then show ?thesis using 1 A by simp
  next
    case 2
    then have "k - lo < m" by simp
    then have le: "(k - lo) * l + l \<le> m * l" by (rule mult_Suc_le)
    have "k * l - lo * l = (k - lo) * l" by (simp add: diff_mult_distrib)
    moreover have "lo * l \<le> k * l" using 2(1) by simp
    ultimately show ?thesis using 2 A B le by simp
  next
    case 3
    have e1: "k * l - lo * l = (k - lo) * l" by (simp add: diff_mult_distrib)
    have e2: "(k - lo) * l - m * l = (k - lo - m) * l"
      by (simp add: diff_mult_distrib add_mult_distrib)
    have "lo * l \<le> k * l" using 3 by simp
    moreover have "m * l \<le> (k - lo) * l" using 3 by (intro mult_le_mono1) linarith
    ultimately show ?thesis using 3 A B e1 e2 by simp
  qed
qed

lemma row_of_segment:
  assumes "q < m" and "(j + m) * l \<le> length V"
  shows "take l (drop (q * l) (take (m * l) (drop (j * l) V))) = take l (drop ((j + q) * l) V)"
proof -
  have le: "q * l + l \<le> m * l" using assms(1) by (rule mult_Suc_le)
  have "drop (q * l) (take (m * l) (drop (j * l) V))
          = take (m * l - q * l) (drop (q * l) (drop (j * l) V))"
    by (rule drop_take)
  also have "drop (q * l) (drop (j * l) V) = drop ((j + q) * l) V"
    by (simp add: add_mult_distrib add.commute)
  finally have "take l (drop (q * l) (take (m * l) (drop (j * l) V)))
          = take l (take (m * l - q * l) (drop ((j + q) * l) V))" by simp
  also have "\<dots> = take (min l (m * l - q * l)) (drop ((j + q) * l) V)" by (rule take_take)
  also have "min l (m * l - q * l) = l" using le by simp
  finally show ?thesis .
qed

lemma adjust_arith:
  fixes i :: int and T n :: nat
  defines "j0 \<equiv> clip_index n i"
    and "j1 \<equiv> clip_index n (i + int T)"
  defines "zdx1 \<equiv> max (- i) 0"
  defines "zdx2 \<equiv> zdx1 + j1 - j0"
  defines "lo \<equiv> slice_clip T zdx1"
  defines "hi \<equiv> max lo (slice_clip T zdx2)"
  shows "slice_bounds n j0 j1 = (nat j0, nat j1)"
    and "nat j0 + (nat j1 - nat j0) \<le> n"
    and "hi = lo + (nat j1 - nat j0)"
    and "lo + (nat j1 - nat j0) \<le> T"
    and "k < T \<Longrightarrow> (\<not> k < lo \<and> k < lo + (nat j1 - nat j0)) = (0 \<le> int k + i \<and> int k + i < int n)"
    and "k < T \<Longrightarrow> 0 \<le> int k + i \<Longrightarrow> int k + i < int n \<Longrightarrow> nat j0 + (k - lo) = nat (int k + i)"
  unfolding hi_def lo_def zdx2_def zdx1_def j1_def j0_def slice_bounds_def slice_clip_def clip_index_def
  by (auto simp: min_def max_def split: if_splits)

lemma adjust_short_series_rows:
  assumes sh: "shape valcopy = n # getshape s"
    and len: "length (flat valcopy) = n * prod_list (getshape s)"
    and i1: "timegrid_index tg (lastdate (init e))
               = timegrid_index tg (firstdate (init e)) + int (timegrid_len (init e))"
  shows "\<exists>r. adjust_short_series e s tg valcopy = Inr r
           \<and> shape r = seriesshape e s
           \<and> (\<forall>k < timegrid_len (init e).
                 row r k =
                   (if 0 \<le> int k + timegrid_index tg (firstdate (init e))
                       \<and> int k + timegrid_index tg (firstdate (init e)) < int n
                    then row valcopy (nat (int k + timegrid_index tg (firstdate (init e))))
                    else replicate (prod_list (getshape s)) (initvalue e s)))"
proof -
  define L where "L = prod_list (getshape s)"
  define T where "T = timegrid_len (init e)"
  define i0 where "i0 = timegrid_index tg (firstdate (init e))"
  define x where "x = initvalue e s"
  define j0 where "j0 = clip_index n i0"
  define j1 where "j1 = clip_index n (i0 + int T)"
  define zdx1 where "zdx1 = max (- i0) 0"
  define zdx2 where "zdx2 = zdx1 + j1 - j0"
  define lo where "lo = slice_clip T zdx1"
  define hi where "hi = max lo (slice_clip T zdx2)"
  define m where "m = nat j1 - nat j0"
  define seg where "seg = take (m * L) (drop (nat j0 * L) (flat valcopy))"
  define F where "F = replicate (T * L) x"
  note defs = m_def hi_def lo_def zdx2_def zdx1_def j1_def j0_def
  note raw = adjust_arith [where n = n and i = i0 and T = T]
  have ar1: "slice_bounds n j0 j1 = (nat j0, nat j1)"
    unfolding defs by (rule raw(1))
  have ar2: "nat j0 + m \<le> n"
    unfolding defs by (rule raw(2))
  have hi: "hi = lo + m"
    unfolding defs by (rule raw(3))
  have loT: "lo + m \<le> T"
    unfolding defs by (rule raw(4))
  have ar5: "(\<not> k < lo \<and> k < lo + m) = (0 \<le> int k + i0 \<and> int k + i0 < int n)" if "k < T" for k
    unfolding defs using that by (rule raw(5))
  have ar6: "nat j0 + (k - lo) = nat (int k + i0)"
    if "k < T" "0 \<le> int k + i0" "int k + i0 < int n" for k
    unfolding defs using that by (rule raw(6))
  have gs: "getslice valcopy j0 j1 = Inr (NDArray (m # getshape s) seg)"
    using ar1 sh by (simp add: getslice_def seg_def m_def L_def)
  have sb: "slice_bounds T zdx1 zdx2 = (lo, lo + m)"
    using hi by (simp add: slice_bounds_def lo_def hi_def)
  define r where "r = NDArray (T # getshape s) (take (lo * L) F @ seg @ drop ((lo + m) * L) F)"
  have ss: "setslice (full (T # getshape s) x) zdx1 zdx2 (NDArray (m # getshape s) seg) = Inr r"
    using sb by (simp add: setslice_def full_def r_def F_def L_def)
  have res: "adjust_short_series e s tg valcopy = Inr r"
    unfolding adjust_short_series_def Let_def
    using sh gs ss i1
    by (simp add: seriesshape_def T_def [symmetric] i0_def [symmetric] x_def [symmetric]
          j0_def [symmetric] j1_def [symmetric] zdx1_def [symmetric] zdx2_def [symmetric])
  have lenseg: "length seg = m * L"
  proof -
    have "(nat j0 + m) * L \<le> n * L" using ar2 by (intro mult_le_mono1) simp
    then show ?thesis using len by (simp add: seg_def L_def add_mult_distrib)
  qed
  have A: "take (lo * L) F = replicate (lo * L) x"
  proof -
    have "lo * L \<le> T * L" using loT by (intro mult_le_mono1) simp
    then show ?thesis by (simp add: F_def min_def)
  qed
  have C: "drop ((lo + m) * L) F = replicate ((T - (lo + m)) * L) x"
    by (simp add: F_def diff_mult_distrib)
  have rows: "row r k = (if 0 \<le> int k + i0 \<and> int k + i0 < int n
                        then row valcopy (nat (int k + i0)) else replicate L x)"
    if k: "k < T" for k
  proof -
    have fl: "flat r = replicate (lo * L) x @ seg @ replicate ((T - (lo + m)) * L) x"
      unfolding r_def ndarray.sel A C ..
    have "prod_list (tl (shape r)) = L" by (simp add: r_def L_def)
    then have "row r k = take L (drop (k * L) (flat r))" by (simp only: row_def)
    then have "row r k = take L (drop (k * L) (replicate (lo * L) x @ seg @ replicate ((T - (lo + m)) * L) x))"
      unfolding fl .
    also have "\<dots> = (if k < lo then take L (drop (k * L) (replicate (lo * L) x))
           else if k < lo + m then take L (drop ((k - lo) * L) seg)
           else take L (drop ((k - lo - m) * L) (replicate ((T - (lo + m)) * L) x)))"
      by (rule row_patch) (simp_all add: lenseg)
    finally have rk: "row r k = (if k < lo then take L (drop (k * L) (replicate (lo * L) x))
           else if k < lo + m then take L (drop ((k - lo) * L) seg)
           else take L (drop ((k - lo - m) * L) (replicate ((T - (lo + m)) * L) x)))" .
    show ?thesis
    proof (cases "\<not> k < lo \<and> k < lo + m")
      case True
      then have inr: "0 \<le> int k + i0" "int k + i0 < int n" using ar5 [OF k] by simp_all
      have q: "k - lo < m" using True by arith
      have "(nat j0 + m) * L \<le> length (flat valcopy)"
      proof -
        have "(nat j0 + m) * L \<le> n * L" using ar2 by (intro mult_le_mono1) simp
        then show ?thesis using len by (simp add: L_def)
      qed
      then have "take L (drop ((k - lo) * L) seg) = take L (drop ((nat j0 + (k - lo)) * L) (flat valcopy))"
        unfolding seg_def using q by (intro row_of_segment)
      also have "nat j0 + (k - lo) = nat (int k + i0)" using ar6 [OF k inr] .
      finally have "take L (drop ((k - lo) * L) seg) = row valcopy (nat (int k + i0))"
        by (simp add: row_def sh L_def)
      then show ?thesis using rk True inr by simp
    next
      case False
      then have nin: "\<not> (0 \<le> int k + i0 \<and> int k + i0 < int n)" using ar5 [OF k] by simp
      have "row r k = replicate L x"
      proof (cases "k < lo")
        case True
        then have "take L (drop (k * L) (replicate (lo * L) x)) = replicate L x"
          by (rule row_replicate)
        then show ?thesis using rk True by (simp only: if_True)
      next
        case False
        with \<open>\<not> (\<not> k < lo \<and> k < lo + m)\<close> have ge: "lo + m \<le> k" by arith
        then have "k - lo - m < T - (lo + m)" using k by arith
        then have "take L (drop ((k - lo - m) * L) (replicate ((T - (lo + m)) * L) x)) = replicate L x"
          by (rule row_replicate)
        then show ?thesis using rk ge False by simp
      qed
      then show ?thesis using nin by auto
    qed
  qed
  have "shape r = seriesshape e s" by (simp add: r_def seriesshape_def T_def)
  then show ?thesis using res rows
    unfolding T_def i0_def L_def x_def by blast
qed

lemma timegrid_index_last:
  assumes "stepsize tg = stepsize i" "0 < stepsize tg" "firstdate i \<le> lastdate i"
    and "stepsize tg dvd (lastdate i - firstdate i)"
  shows "timegrid_index tg (lastdate i) = timegrid_index tg (firstdate i) + int (timegrid_len i)"
proof -
  have "lastdate i - firstdate tg = (firstdate i - firstdate tg) + (lastdate i - firstdate i)"
    by simp
  then have "(lastdate i - firstdate tg) div stepsize tg
        = (firstdate i - firstdate tg) div stepsize tg + (lastdate i - firstdate i) div stepsize tg"
    using assms(4) by (simp only: div_plus_div_distrib_dvd_right)
  moreover have "0 \<le> (lastdate i - firstdate i) div stepsize tg"
    using assms(2,3) by (simp add: pos_imp_zdiv_nonneg_iff)
  ultimately show ?thesis using assms(1) by (simp add: timegrid_index_def timegrid_len_def)
qed

text \<open>
  C3.  With the initialisation period of 5 daily steps from 2000-01-10, a series of ones
  on the grid 2000-01-12 to 2000-01-15 becomes \<open>[nan, nan, 1, 1, 1]\<close>, and
  \<open>[0, 0, 1, 1, 1]\<close> with the option \<^verbatim>\<open>usedefaultvalues\<close>; a series of ones on the grid
  2000-01-10 to 2000-01-13 becomes \<open>[1, 1, 1, nan, nan]\<close>.  In general, for an external
  grid of the simulation step size: the result has the length of the initialisation
  period, position \<open>k\<close> holds the external row of the same date where the external
  series has one, and the initial value of the sequence everywhere else.
\<close>

theorem adjust_short_series_aligns:
  "adjust_short_series (example_env False) obs \<lparr>firstdate = 12, lastdate = 15, stepsize = 1\<rparr> (ones 3)
     = Inr (NDArray [5] [nan, nan, one, one, one])
   \<and> adjust_short_series (example_env True) obs \<lparr>firstdate = 12, lastdate = 15, stepsize = 1\<rparr> (ones 3)
     = Inr (NDArray [5] [zero, zero, one, one, one])
   \<and> adjust_short_series (example_env False) obs \<lparr>firstdate = 10, lastdate = 13, stepsize = 1\<rparr> (ones 3)
     = Inr (NDArray [5] [one, one, one, nan, nan])
   \<and> (stepsize tg = stepsize (init e) \<and> 0 < stepsize tg \<and> firstdate (init e) \<le> lastdate (init e)
        \<and> stepsize tg dvd (lastdate (init e) - firstdate (init e))
        \<and> shape valcopy = n # getshape s \<and> length (flat valcopy) = n * prod_list (getshape s)
      \<longrightarrow> (\<exists>r. adjust_short_series e s tg valcopy = Inr r
             \<and> shape r = seriesshape e s
             \<and> (\<forall>k < timegrid_len (init e).
                   row r k =
                     (if 0 \<le> int k + timegrid_index tg (firstdate (init e))
                         \<and> int k + timegrid_index tg (firstdate (init e)) < int n
                      then row valcopy (nat (int k + timegrid_index tg (firstdate (init e))))
                      else replicate (prod_list (getshape s)) (initvalue e s)))))"
proof (intro conjI impI)
  show "adjust_short_series (example_env False) obs \<lparr>firstdate = 12, lastdate = 15, stepsize = 1\<rparr> (ones 3)
     = Inr (NDArray [5] [nan, nan, one, one, one])"
    by code_simp
  show "adjust_short_series (example_env True) obs \<lparr>firstdate = 12, lastdate = 15, stepsize = 1\<rparr> (ones 3)
     = Inr (NDArray [5] [zero, zero, one, one, one])"
    by code_simp
  show "adjust_short_series (example_env False) obs \<lparr>firstdate = 10, lastdate = 13, stepsize = 1\<rparr> (ones 3)
     = Inr (NDArray [5] [one, one, one, nan, nan])"
    by code_simp
next
  assume a: "stepsize tg = stepsize (init e) \<and> 0 < stepsize tg \<and> firstdate (init e) \<le> lastdate (init e)
        \<and> stepsize tg dvd (lastdate (init e) - firstdate (init e))
        \<and> shape valcopy = n # getshape s \<and> length (flat valcopy) = n * prod_list (getshape s)"
  then have h: "stepsize tg = stepsize (init e)" "0 < stepsize tg"
      "firstdate (init e) \<le> lastdate (init e)"
      "stepsize tg dvd (lastdate (init e) - firstdate (init e))"
      "shape valcopy = n # getshape s" "length (flat valcopy) = n * prod_list (getshape s)"
    by blast+
  have "timegrid_index tg (lastdate (init e))
               = timegrid_index tg (firstdate (init e)) + int (timegrid_len (init e))"
    using h(1-4) by (rule timegrid_index_last)
  with h(5,6) show "\<exists>r. adjust_short_series e s tg valcopy = Inr r
             \<and> shape r = seriesshape e s
             \<and> (\<forall>k < timegrid_len (init e).
                   row r k =
                     (if 0 \<le> int k + timegrid_index tg (firstdate (init e))
                         \<and> int k + timegrid_index tg (firstdate (init e)) < int n
                      then row valcopy (nat (int k + timegrid_index tg (firstdate (init e))))
                      else replicate (prod_list (getshape s)) (initvalue e s)))"
    by (rule adjust_short_series_rows)
qed

theorem adjust_short_series_aligns_witness:
  "stepsize \<lparr>firstdate = 12, lastdate = 17, stepsize = 1\<rparr> = stepsize (init (example_env False))
   \<and> (0::int) < stepsize \<lparr>firstdate = 12, lastdate = 17, stepsize = 1\<rparr>
   \<and> firstdate (init (example_env False)) \<le> lastdate (init (example_env False))
   \<and> stepsize \<lparr>firstdate = 12, lastdate = 17, stepsize = 1\<rparr>
         dvd (lastdate (init (example_env False)) - firstdate (init (example_env False)))
   \<and> shape (ones 5) = 5 # getshape obs
   \<and> length (flat (ones 5)) = 5 * prod_list (getshape obs)
   \<and> (\<exists>r. adjust_short_series (example_env False) obs
              \<lparr>firstdate = 12, lastdate = 17, stepsize = 1\<rparr> (ones 5) = Inr r
          \<and> shape r = seriesshape (example_env False) obs
          \<and> (\<forall>k < timegrid_len (init (example_env False)).
                row r k =
                  (if 0 \<le> int k + timegrid_index \<lparr>firstdate = 12, lastdate = 17, stepsize = 1\<rparr>
                                     (firstdate (init (example_env False)))
                      \<and> int k + timegrid_index \<lparr>firstdate = 12, lastdate = 17, stepsize = 1\<rparr>
                                     (firstdate (init (example_env False))) < int 5
                   then row (ones 5)
                          (nat (int k + timegrid_index \<lparr>firstdate = 12, lastdate = 17, stepsize = 1\<rparr>
                                          (firstdate (init (example_env False)))))
                   else replicate (prod_list (getshape obs)) (initvalue (example_env False) obs))))"
proof -
  let ?tg = "\<lparr>firstdate = 12, lastdate = 17, stepsize = 1\<rparr>"
  let ?e = "example_env False"
  have h: "stepsize ?tg = stepsize (init ?e) \<and> 0 < stepsize ?tg
        \<and> firstdate (init ?e) \<le> lastdate (init ?e)
        \<and> stepsize ?tg dvd (lastdate (init ?e) - firstdate (init ?e))
        \<and> shape (ones 5) = 5 # getshape obs
        \<and> length (flat (ones 5)) = 5 * prod_list (getshape obs)"
    by (simp add: example_env_def ones_def getshape_def obs_def ndim_def)
  have g: "stepsize ?tg = stepsize (init ?e) \<and> 0 < stepsize ?tg
        \<and> firstdate (init ?e) \<le> lastdate (init ?e)
        \<and> stepsize ?tg dvd (lastdate (init ?e) - firstdate (init ?e))
        \<and> shape (ones 5) = 5 # getshape obs
        \<and> length (flat (ones 5)) = 5 * prod_list (getshape obs)
      \<longrightarrow> (\<exists>r. adjust_short_series ?e obs ?tg (ones 5) = Inr r
             \<and> shape r = seriesshape ?e obs
             \<and> (\<forall>k < timegrid_len (init ?e).
                   row r k =
                     (if 0 \<le> int k + timegrid_index ?tg (firstdate (init ?e))
                         \<and> int k + timegrid_index ?tg (firstdate (init ?e)) < int 5
                      then row (ones 5) (nat (int k + timegrid_index ?tg (firstdate (init ?e))))
                      else replicate (prod_list (getshape obs)) (initvalue ?e obs))))"
    using adjust_short_series_aligns [of ?tg ?e "ones 5" 5 obs] by blast
  from g h have "\<exists>r. adjust_short_series ?e obs ?tg (ones 5) = Inr r
             \<and> shape r = seriesshape ?e obs
             \<and> (\<forall>k < timegrid_len (init ?e).
                   row r k =
                     (if 0 \<le> int k + timegrid_index ?tg (firstdate (init ?e))
                         \<and> int k + timegrid_index ?tg (firstdate (init ?e)) < int 5
                      then row (ones 5) (nat (int k + timegrid_index ?tg (firstdate (init ?e))))
                      else replicate (prod_list (getshape obs)) (initvalue ?e obs)))"
    by (rule mp)
  with h show ?thesis by blast
qed

section \<open>Properties of the external load and the mode transitions\<close>

text \<open>
  C4.  When the step size of the external file differs from the simulation step size,
  \<^verbatim>\<open>load_ext\<close> raises and stores nothing, whatever the option \<^verbatim>\<open>checkseries\<close> says: the
  outcome is the same for both settings, and it is the step-size error as soon as the
  file can be read and has the shape of the sequence.
\<close>

theorem load_ext_stepsize_fatal:
  assumes "external e = Some (timegrid_data, values)"
    and "stepsize (init e) \<noteq> stepsize timegrid_data"
  shows "(\<exists>err. load_ext (e\<lparr>checkseries := c\<rparr>) s = (Some err, s))
         \<and> load_ext (e\<lparr>checkseries := True\<rparr>) s = load_ext (e\<lparr>checkseries := False\<rparr>) s
         \<and> (getshape s = tl (shape values)
              \<longrightarrow> load_ext (e\<lparr>checkseries := c\<rparr>) s = (Some (RuntimeError StepSize), s))"
  using assms by (simp add: load_ext_def load_ext_values_def)

theorem load_ext_stepsize_fatal_witness:
  "external ((example_env False)\<lparr>external := Some (\<lparr>firstdate = 10, lastdate = 16, stepsize = 2\<rparr>, ones 3)\<rparr>)
      = Some (\<lparr>firstdate = 10, lastdate = 16, stepsize = 2\<rparr>, ones 3)
   \<and> stepsize (init ((example_env False)\<lparr>external := Some (\<lparr>firstdate = 10, lastdate = 16, stepsize = 2\<rparr>, ones 3)\<rparr>))
        \<noteq> stepsize \<lparr>firstdate = 10, lastdate = 16, stepsize = 2\<rparr>
   \<and> getshape obs = tl (shape (ones 3))
   \<and> load_ext ((example_env False)\<lparr>external := Some (\<lparr>firstdate = 10, lastdate = 16, stepsize = 2\<rparr>, ones 3),
                                  checkseries := False\<rparr>) obs
        = (Some (RuntimeError StepSize), obs)"
proof -
  let ?tg = "\<lparr>firstdate = 10, lastdate = 16, stepsize = 2\<rparr>"
  let ?e = "(example_env False)\<lparr>external := Some (?tg, ones 3)\<rparr>"
  have 1: "external ?e = Some (?tg, ones 3)" by simp
  have 2: "stepsize (init ?e) \<noteq> stepsize ?tg" by (simp add: example_env_def)
  have 3: "getshape obs = tl (shape (ones 3))" by (simp add: getshape_def obs_def ones_def ndim_def)
  show ?thesis
    using 1 2 3 load_ext_stepsize_fatal [OF 1 2, of False obs] by simp
qed

lemma delseries_flags [simp]:
  "ramflag (fast (snd (delseries s))) = ramflag (fast s)"
  "diskflag (fast (snd (delseries s))) = diskflag (fast s)"
  by (simp_all add: delseries_def split: option.splits)

lemma deactivate_disk_flags:
  "ramflag (fast (snd (deactivate_disk s))) = ramflag (fast s)"
  "diskflag (fast (snd (deactivate_disk s))) \<Longrightarrow> diskflag (fast s)"
  "fst (deactivate_disk s) = None \<Longrightarrow> \<not> diskflag (fast (snd (deactivate_disk s)))"
  by (cases "delseries s"; cases "fst (delseries s)";
      use delseries_flags [of s] in \<open>auto simp: deactivate_disk_def set_diskflag_def\<close>)+

lemma deactivate_ram_flags:
  "diskflag (fast (snd (deactivate_ram s))) = diskflag (fast s)"
  "ramflag (fast (snd (deactivate_ram s))) \<Longrightarrow> ramflag (fast s)"
  "fst (deactivate_ram s) = None \<Longrightarrow> \<not> ramflag (fast (snd (deactivate_ram s)))"
  by (cases "delseries s"; cases "fst (delseries s)";
      use delseries_flags [of s] in \<open>auto simp: deactivate_ram_def set_ramflag_def\<close>)+

lemma update_fastaccess_flags [simp]:
  "ramflag (fast (snd (update_fastaccess s))) = ramflag (fast s)"
  "diskflag (fast (snd (update_fastaccess s))) = diskflag (fast s)"
  by (simp_all add: update_fastaccess_def Let_def)

lemma zero_int_flags [simp]:
  "ramflag (fast (snd (zero_int e s))) = ramflag (fast s)"
  "diskflag (fast (snd (zero_int e s))) = diskflag (fast s)"
  by (simp_all add: zero_int_def Let_def save_int_def setarray_def)

lemma load_ext_flags [simp]:
  "ramflag (fast (snd (load_ext e s))) = ramflag (fast s)"
  "diskflag (fast (snd (load_ext e s))) = diskflag (fast s)"
  by (cases "load_ext_values e s"; simp add: load_ext_def save_int_def setarray_def)+

lemma prepare_series_flags [simp]:
  "ramflag (fast (snd (prepare_series e s))) = ramflag (fast s)"
  "diskflag (fast (snd (prepare_series e s))) = diskflag (fast s)"
proof -
  define r where "r = (if reads_external s then load_ext e s else zero_int e s)"
  have f: "ramflag (fast (snd r)) = ramflag (fast s)" "diskflag (fast (snd r)) = diskflag (fast s)"
    by (simp_all add: r_def)
  have p: "prepare_series e s = (case r of (Some err, s') \<Rightarrow> (Some err, s') | (None, s') \<Rightarrow> update_fastaccess s')"
    by (simp add: prepare_series_def r_def)
  show "ramflag (fast (snd (prepare_series e s))) = ramflag (fast s)"
    "diskflag (fast (snd (prepare_series e s))) = diskflag (fast s)"
    unfolding p using f by (cases r; cases "fst r"; simp)+
qed

lemma IOSequence_activate_ram_exclusive:
  "exclusive s \<Longrightarrow> exclusive (snd (IOSequence_activate_ram e s))"
proof -
  assume ex: "exclusive s"
  obtain r s1 where d: "deactivate_disk s = (r, s1)" by (cases "deactivate_disk s")
  show ?thesis
  proof (cases r)
    case None
    then have "\<not> diskflag (fast s1)" using deactivate_disk_flags(3) [of s] d by simp
    then show ?thesis using d None
      by (simp add: IOSequence_activate_ram_def exclusive_def set_ramflag_def)
  next
    case (Some err)
    then show ?thesis using d ex deactivate_disk_flags(1,2) [of s]
      by (auto simp: IOSequence_activate_ram_def exclusive_def)
  qed
qed

lemma IOSequence_activate_disk_exclusive:
  "exclusive s \<Longrightarrow> exclusive (snd (IOSequence_activate_disk e s))"
proof -
  assume ex: "exclusive s"
  obtain r s1 where d: "deactivate_ram s = (r, s1)" by (cases "deactivate_ram s")
  show ?thesis
  proof (cases r)
    case None
    then have "\<not> ramflag (fast s1)" using deactivate_ram_flags(3) [of s] d by simp
    then show ?thesis using d None
      by (simp add: IOSequence_activate_disk_def exclusive_def set_diskflag_def)
  next
    case (Some err)
    then show ?thesis using d ex deactivate_ram_flags(1,2) [of s]
      by (auto simp: IOSequence_activate_disk_def exclusive_def)
  qed
qed

lemma node_activate_ram_exclusive:
  "exclusive s \<Longrightarrow> exclusive (snd (node_activate_ram w e s))"
proof -
  assume "exclusive s"
  then have ex: "exclusive (snd (IOSequence_activate_ram e s))"
    by (rule IOSequence_activate_ram_exclusive)
  obtain r s1 where d: "IOSequence_activate_ram e s = (r, s1)" by (cases "IOSequence_activate_ram e s")
  show ?thesis
  proof (cases r)
    case None
    then show ?thesis using ex d by (simp add: node_activate_ram_def)
  next
    case (Some err)
    then show ?thesis using ex d
      by (cases err) (simp_all add: node_activate_ram_def exclusive_def set_ramflag_def)
  qed
qed

lemma node_activate_disk_exclusive:
  "exclusive s \<Longrightarrow> exclusive (snd (node_activate_disk w e s))"
proof -
  assume "exclusive s"
  then have ex: "exclusive (snd (IOSequence_activate_disk e s))"
    by (rule IOSequence_activate_disk_exclusive)
  obtain r s1 where d: "IOSequence_activate_disk e s = (r, s1)" by (cases "IOSequence_activate_disk e s")
  show ?thesis
  proof (cases r)
    case None
    then show ?thesis using ex d by (simp add: node_activate_disk_def)
  next
    case (Some err)
    then show ?thesis using ex d
      by (cases err) (simp_all add: node_activate_disk_def exclusive_def set_diskflag_def)
  qed
qed

lemma disk2ram_exclusive: "exclusive s \<Longrightarrow> exclusive (snd (disk2ram e s))"
proof -
  assume ex: "exclusive s"
  show ?thesis
  proof (cases "getseries e s")
    case (Inl err)
    then show ?thesis using ex by (simp add: disk2ram_def)
  next
    case (Inr series)
    obtain r s1 where d: "deactivate_disk s = (r, s1)" by (cases "deactivate_disk s")
    show ?thesis
    proof (cases r)
      case None
      then have "\<not> diskflag (fast s1)" using deactivate_disk_flags(3) [of s] d by simp
      then show ?thesis using d None Inr
        by (simp add: disk2ram_def exclusive_def set_ramflag_def setarray_def)
    next
      case (Some err)
      then show ?thesis using d ex Inr deactivate_disk_flags(1,2) [of s]
        by (auto simp: disk2ram_def exclusive_def)
    qed
  qed
qed

lemma ram2disk_exclusive: "exclusive s \<Longrightarrow> exclusive (snd (ram2disk e s))"
proof -
  assume ex: "exclusive s"
  show ?thesis
  proof (cases "getseries e s")
    case (Inl err)
    then show ?thesis using ex by (simp add: ram2disk_def)
  next
    case (Inr series)
    obtain r s1 where d: "deactivate_ram s = (r, s1)" by (cases "deactivate_ram s")
    show ?thesis
    proof (cases r)
      case None
      then have "\<not> ramflag (fast s1)" using deactivate_ram_flags(3) [of s] d by simp
      then show ?thesis using d None Inr
        by (simp add: ram2disk_def exclusive_def set_diskflag_def save_int_def)
    next
      case (Some err)
      then show ?thesis using d ex Inr deactivate_ram_flags(1,2) [of s]
        by (auto simp: ram2disk_def exclusive_def)
    qed
  qed
qed

lemma apply_modeop_exclusive: "exclusive s \<Longrightarrow> exclusive (snd (apply_modeop c s))"
proof -
  assume ex: "exclusive s"
  have dr: "exclusive (snd (deactivate_ram s))"
    using ex deactivate_ram_flags(1,2) [of s] by (auto simp: exclusive_def)
  have dd: "exclusive (snd (deactivate_disk s))"
    using ex deactivate_disk_flags(1,2) [of s] by (auto simp: exclusive_def)
  have ar: "exclusive (snd (activate_ram (fst c) s))"
    using ex by (cases "kind s")
      (simp_all add: activate_ram_def node_activate_ram_exclusive IOSequence_activate_ram_exclusive)
  have ad: "exclusive (snd (activate_disk (fst c) s))"
    using ex by (cases "kind s")
      (simp_all add: activate_disk_def node_activate_disk_exclusive IOSequence_activate_disk_exclusive)
  show ?thesis
    using dr dd ar ad ex
    by (cases "snd c") (simp_all add: apply_modeop_def ram2disk_exclusive disk2ram_exclusive)
qed

lemma run_modeops_exclusive: "exclusive s \<Longrightarrow> exclusive (run_modeops cs s)"
  by (induction cs arbitrary: s) (simp_all add: apply_modeop_exclusive)

text \<open>
  C5.  When the RAM flag and the disk flag of a sequence are not both set (they are both
  unset after \<^verbatim>\<open>connect\<close>), they are not both set after any run of \<^verbatim>\<open>activate_ram\<close>,
  \<^verbatim>\<open>activate_disk\<close>, \<^verbatim>\<open>deactivate_ram\<close>, \<^verbatim>\<open>deactivate_disk\<close>, \<^verbatim>\<open>ram2disk\<close> and \<^verbatim>\<open>disk2ram\<close>,
  whether the single calls return or raise; and with both flags unset, reading the
  property \<^verbatim>\<open>series\<close> raises the error that no internal data is available.
\<close>

theorem mode_exclusivity:
  "(\<not> (ramflag (fast s) \<and> diskflag (fast s))
      \<longrightarrow> \<not> (ramflag (fast (run_modeops cs s)) \<and> diskflag (fast (run_modeops cs s))))
   \<and> (\<not> ramflag (fast s) \<and> \<not> diskflag (fast s)
      \<longrightarrow> getseries e s = Inl (RuntimeError NoInternalData))"
  using run_modeops_exclusive [of s cs] by (simp add: exclusive_def getseries_def)

lemma length_unpack_all [simp]: "length (unpack_all n bs) = n"
  by (induction n arbitrary: bs) simp_all

lemma fromfile_pack_all [simp]: "fromfile (pack_all xs) = NDArray [length xs] xs"
  by (simp add: fromfile_def)

lemma getshape_fits:
  "value_fits (lengths (fast s)) (val (fast s)) \<Longrightarrow> getshape s = lengths (fast s)"
  by (cases "val (fast s)") (auto simp: value_fits_def getshape_def ndim_def)

lemma update_fastaccess_fits:
  assumes "value_fits (lengths (fast s)) (val (fast s))"
  shows "update_fastaccess s = (None, s)"
proof -
  have "getshape s = lengths (fast s)" using assms by (rule getshape_fits)
  then show ?thesis by (simp add: update_fastaccess_def ndim_def)
qed

lemma getshape_cong:
  "val (fast s') = val (fast s) \<Longrightarrow> lengths (fast s') = lengths (fast s) \<Longrightarrow> getshape s' = getshape s"
  by (simp add: getshape_def ndim_def)

lemma load_int_packed:
  assumes "disk (fast s) = Some (pack_all (flat a))"
    and "length (flat a) = prod_list (shape a)"
    and "if ndim (fast s) > 0 then shape a = seriesshape e s else shape a = [length (flat a)]"
  shows "load_int e s = Inr a"
proof (cases "ndim (fast s) > 0")
  case True
  then have "shape a = seriesshape e s" using assms(3) by simp
  then have "reshape (NDArray [length (flat a)] (flat a)) (seriesshape e s) = Inr (NDArray (shape a) (flat a))"
    using assms(2) by (simp add: reshape_def)
  then show ?thesis using True assms(1) by (simp add: load_int_def)
next
  case False
  then have "shape a = [length (flat a)]" using assms(3) by simp
  then have "NDArray [length (flat a)] (flat a) = a" by (cases a) simp
  then show ?thesis using False assms(1) by (simp add: load_int_def)
qed

lemma ram2disk_result:
  assumes fits: "value_fits (lengths (fast s)) (val (fast s))"
    and ram: "ramflag (fast s)" and nodisk: "\<not> diskflag (fast s)"
    and arr: "array (fast s) = Some a"
  shows "ram2disk e s =
     (None, s\<lparr>fast := (fast s)\<lparr>array := None, ramflag := False, diskflag := True,
                              disk := Some (pack_all (flat a))\<rparr>\<rparr>)"
proof -
  have g: "getseries e s = Inr a" using ram nodisk arr by (simp add: getseries_def getarray_def)
  have d: "deactivate_ram s = (None, s\<lparr>fast := (fast s)\<lparr>array := None, ramflag := False\<rparr>\<rparr>)"
    using ram nodisk by (simp add: deactivate_ram_def delseries_def set_ramflag_def)
  have u: "update_fastaccess (s\<lparr>fast := (fast s)\<lparr>array := None, ramflag := False, diskflag := True,
                              disk := Some (pack_all (flat a))\<rparr>\<rparr>)
        = (None, s\<lparr>fast := (fast s)\<lparr>array := None, ramflag := False, diskflag := True,
                              disk := Some (pack_all (flat a))\<rparr>\<rparr>)"
    using fits by (intro update_fastaccess_fits) simp
  show ?thesis using g d u by (simp add: ram2disk_def set_diskflag_def save_int_def)
qed

lemma disk2ram_result:
  assumes fits: "value_fits (lengths (fast s)) (val (fast s))"
    and disk: "diskflag (fast s)" and noram: "\<not> ramflag (fast s)"
    and ser: "getseries e s = Inr a"
  shows "disk2ram e s =
     (None, s\<lparr>fast := (fast s)\<lparr>disk := None, diskflag := False, ramflag := True,
                              array := Some a\<rparr>\<rparr>)"
proof -
  have "load_int e s = Inr a" using ser disk by (simp add: getseries_def)
  then obtain content where c: "disk (fast s) = Some content"
    by (cases "disk (fast s)") (simp_all add: load_int_def)
  have d: "deactivate_disk s = (None, s\<lparr>fast := (fast s)\<lparr>disk := None, diskflag := False\<rparr>\<rparr>)"
    using disk c by (simp add: deactivate_disk_def delseries_def set_diskflag_def)
  have u: "update_fastaccess (s\<lparr>fast := (fast s)\<lparr>disk := None, diskflag := False, ramflag := True,
                              array := Some a\<rparr>\<rparr>)
        = (None, s\<lparr>fast := (fast s)\<lparr>disk := None, diskflag := False, ramflag := True,
                              array := Some a\<rparr>\<rparr>)"
    using fits by (intro update_fastaccess_fits) simp
  show ?thesis using ser d u by (simp add: disk2ram_def set_ramflag_def setarray_def)
qed

lemma load_int_shape:
  assumes "load_int e s = Inr a"
  shows "length (flat a) = prod_list (shape a)
         \<and> (if ndim (fast s) > 0 then shape a = seriesshape e s else shape a = [length (flat a)])"
proof -
  obtain content where c: "disk (fast s) = Some content"
    using assms by (cases "disk (fast s)") (simp_all add: load_int_def)
  show ?thesis
  proof (cases "ndim (fast s) > 0")
    case True
    then have "reshape (fromfile content) (seriesshape e s) = Inr a"
      using assms c by (simp add: load_int_def)
    then show ?thesis using True
      by (auto simp: reshape_def fromfile_def split: if_splits)
  next
    case False
    then have "a = fromfile content" using assms c by (simp add: load_int_def)
    then show ?thesis using False by (simp add: fromfile_def)
  qed
qed

text \<open>
  C6.  For a sequence whose value has the registered shape: when the series is held in
  RAM with the shape of a whole series (the length of the initialisation period, then
  the shape of the sequence), \<^verbatim>\<open>ram2disk\<close> followed by \<^verbatim>\<open>disk2ram\<close> both return, and the
  property \<^verbatim>\<open>series\<close> is the same array before, in between and after; when the series is
  held on disk and can be read, the same holds for \<^verbatim>\<open>disk2ram\<close> followed by \<^verbatim>\<open>ram2disk\<close>.
\<close>

theorem ram2disk_disk2ram_roundtrip:
  "(value_fits (lengths (fast s)) (val (fast s))
      \<and> ramflag (fast s) \<and> \<not> diskflag (fast s) \<and> array (fast s) = Some a
      \<and> shape a = seriesshape e s \<and> length (flat a) = prod_list (shape a)
    \<longrightarrow> (\<exists>s1 s2. ram2disk e s = (None, s1) \<and> disk2ram e s1 = (None, s2)
           \<and> getseries e s = Inr a \<and> getseries e s1 = Inr a \<and> getseries e s2 = Inr a))
   \<and> (value_fits (lengths (fast t)) (val (fast t))
      \<and> diskflag (fast t) \<and> \<not> ramflag (fast t) \<and> getseries e t = Inr b
    \<longrightarrow> (\<exists>t1 t2. disk2ram e t = (None, t1) \<and> ram2disk e t1 = (None, t2)
           \<and> getseries e t1 = Inr b \<and> getseries e t2 = Inr b))"
proof (intro conjI impI)
  assume h0: "value_fits (lengths (fast s)) (val (fast s))
      \<and> ramflag (fast s) \<and> \<not> diskflag (fast s) \<and> array (fast s) = Some a
      \<and> shape a = seriesshape e s \<and> length (flat a) = prod_list (shape a)"
  then have fits: "value_fits (lengths (fast s)) (val (fast s))"
    and h: "ramflag (fast s) \<and> \<not> diskflag (fast s) \<and> array (fast s) = Some a
            \<and> shape a = seriesshape e s \<and> length (flat a) = prod_list (shape a)"
    by blast+
  define s1 where "s1 = s\<lparr>fast := (fast s)\<lparr>array := None, ramflag := False, diskflag := True,
                              disk := Some (pack_all (flat a))\<rparr>\<rparr>"
  define s2 where "s2 = s1\<lparr>fast := (fast s1)\<lparr>disk := None, diskflag := False, ramflag := True,
                              array := Some a\<rparr>\<rparr>"
  have r1: "ram2disk e s = (None, s1)"
    unfolding s1_def using fits h by (intro ram2disk_result) simp_all
  have g0: "getseries e s = Inr a" using h by (simp add: getseries_def getarray_def)
  have "getshape s1 = getshape s" by (rule getshape_cong) (simp_all add: s1_def)
  then have ss: "seriesshape e s1 = seriesshape e s" by (simp add: seriesshape_def)
  have sh0: "ndim (fast s) = 0 \<Longrightarrow> shape a = [length (flat a)]"
  proof -
    assume "ndim (fast s) = 0"
    then have "shape a = [timegrid_len (init e)]" using h by (simp add: seriesshape_def getshape_def)
    then show ?thesis using h by simp
  qed
  have "load_int e s1 = Inr a"
  proof (rule load_int_packed)
    show "disk (fast s1) = Some (pack_all (flat a))" by (simp add: s1_def)
    show "length (flat a) = prod_list (shape a)" using h by simp
    show "if ndim (fast s1) > 0 then shape a = seriesshape e s1 else shape a = [length (flat a)]"
      using h sh0 ss by (simp add: s1_def)
  qed
  then have g1: "getseries e s1 = Inr a" by (simp add: getseries_def s1_def)
  have r2: "disk2ram e s1 = (None, s2)"
    unfolding s2_def using fits g1 by (intro disk2ram_result) (simp_all add: s1_def)
  have g2: "getseries e s2 = Inr a" by (simp add: getseries_def getarray_def s2_def s1_def)
  show "\<exists>s1 s2. ram2disk e s = (None, s1) \<and> disk2ram e s1 = (None, s2)
                 \<and> getseries e s = Inr a \<and> getseries e s1 = Inr a \<and> getseries e s2 = Inr a"
    using r1 r2 g0 g1 g2 by blast
next
  assume h0: "value_fits (lengths (fast t)) (val (fast t))
      \<and> diskflag (fast t) \<and> \<not> ramflag (fast t) \<and> getseries e t = Inr b"
  then have fits: "value_fits (lengths (fast t)) (val (fast t))"
    and h: "diskflag (fast t) \<and> \<not> ramflag (fast t) \<and> getseries e t = Inr b"
    by blast+
  define t1 where "t1 = t\<lparr>fast := (fast t)\<lparr>disk := None, diskflag := False, ramflag := True,
                              array := Some b\<rparr>\<rparr>"
  define t2 where "t2 = t1\<lparr>fast := (fast t1)\<lparr>array := None, ramflag := False, diskflag := True,
                              disk := Some (pack_all (flat b))\<rparr>\<rparr>"
  have r1: "disk2ram e t = (None, t1)"
    unfolding t1_def using fits h by (intro disk2ram_result) simp_all
  have g1: "getseries e t1 = Inr b" by (simp add: getseries_def getarray_def t1_def)
  have r2: "ram2disk e t1 = (None, t2)"
    unfolding t2_def using fits by (intro ram2disk_result) (simp_all add: t1_def)
  have li: "load_int e t = Inr b" using h by (auto simp: getseries_def)
  have "getshape t2 = getshape t" by (rule getshape_cong) (simp_all add: t2_def t1_def)
  then have ss: "seriesshape e t2 = seriesshape e t" by (simp add: seriesshape_def)
  have "load_int e t2 = Inr b"
  proof (rule load_int_packed)
    show "disk (fast t2) = Some (pack_all (flat b))" by (simp add: t2_def)
    show "length (flat b) = prod_list (shape b)" using load_int_shape [OF li] by (rule conjunct1)
    have "ndim (fast t2) = ndim (fast t)" by (simp add: t2_def t1_def)
    then show "if ndim (fast t2) > 0 then shape b = seriesshape e t2 else shape b = [length (flat b)]"
      using load_int_shape [OF li, THEN conjunct2] unfolding ss by simp
  qed
  then have g2: "getseries e t2 = Inr b" by (simp add: getseries_def t2_def)
  show "\<exists>t1 t2. disk2ram e t = (None, t1) \<and> ram2disk e t1 = (None, t2)
                 \<and> getseries e t1 = Inr b \<and> getseries e t2 = Inr b"
    using r1 r2 g1 g2 by blast
qed

lemma deactivate_disk_kind [simp]:
  "kind (snd (deactivate_disk s)) = kind s"
  "use_ext (snd (deactivate_disk s)) = use_ext s"
  "warned (snd (deactivate_disk s)) = warned s"
  by (cases "disk (fast s)"; simp add: deactivate_disk_def delseries_def set_diskflag_def)+

lemma deactivate_ram_kind [simp]:
  "kind (snd (deactivate_ram s)) = kind s"
  "use_ext (snd (deactivate_ram s)) = use_ext s"
  "warned (snd (deactivate_ram s)) = warned s"
  by (cases "disk (fast s)"; simp add: deactivate_ram_def delseries_def set_ramflag_def)+

lemma prepare_series_missing:
  "external e = None \<Longrightarrow> reads_external s \<Longrightarrow> prepare_series e s = (Some IOError, s)"
  by (simp add: prepare_series_def load_ext_def load_ext_values_def)

lemma IOSequence_activate_ram_missing:
  assumes "external e = None" "reads_external s" "fst (deactivate_disk s) = None"
  shows "IOSequence_activate_ram e s = (Some IOError, set_ramflag True (snd (deactivate_disk s)))"
proof -
  obtain s1 where d: "deactivate_disk s = (None, s1)"
    using assms(3) by (cases "deactivate_disk s") simp
  have "kind s1 = kind s" "use_ext s1 = use_ext s"
    using deactivate_disk_kind(1,2) [of s] d by simp_all
  then have "reads_external (set_ramflag True s1)"
    using assms(2) by (simp add: reads_external_def set_ramflag_def)
  then show ?thesis
    using d assms(1) by (simp add: IOSequence_activate_ram_def prepare_series_missing)
qed

lemma IOSequence_activate_disk_missing:
  assumes "external e = None" "reads_external s" "fst (deactivate_ram s) = None"
  shows "IOSequence_activate_disk e s = (Some IOError, set_diskflag True (snd (deactivate_ram s)))"
proof -
  obtain s1 where d: "deactivate_ram s = (None, s1)"
    using assms(3) by (cases "deactivate_ram s") simp
  have "kind s1 = kind s" "use_ext s1 = use_ext s"
    using deactivate_ram_kind(1,2) [of s] d by simp_all
  then have "reads_external (set_diskflag True s1)"
    using assms(2) by (simp add: reads_external_def set_diskflag_def)
  then show ?thesis
    using d assms(1) by (simp add: IOSequence_activate_disk_def prepare_series_missing)
qed

text \<open>
  C8.  Let the external file be missing for a sequence that reads one (an input sequence,
  or a node sequence with \<^verbatim>\<open>use_ext\<close>), and let the switch out of the other mode succeed.
  For \<^verbatim>\<open>Obs\<close> and \<^verbatim>\<open>Sim\<close>, \<^verbatim>\<open>activate_ram\<close> and \<^verbatim>\<open>activate_disk\<close> return normally with the
  flag reset, and they issue their warning exactly when \<^verbatim>\<open>warnmissingobsfile\<close>
  (\<^verbatim>\<open>warnmissingsimfile\<close> for \<^verbatim>\<open>Sim\<close>) is set; for an \<^verbatim>\<open>InputSequence\<close> both raise the
  \<^verbatim>\<open>IOError\<close>.
\<close>

theorem missing_external_file_policy:
  assumes "external e = None" and "reads_external s"
  shows "(fst (deactivate_disk s) = None \<longrightarrow>
            (kind s = Obs \<longrightarrow>
               fst (activate_ram e s) = None \<and> \<not> ramflag (fast (snd (activate_ram e s)))
               \<and> warned (snd (activate_ram e s))
                   = warned s @ (if warnmissingobsfile e then [RamflagReset] else []))
          \<and> (kind s = Sim \<longrightarrow>
               fst (activate_ram e s) = None \<and> \<not> ramflag (fast (snd (activate_ram e s)))
               \<and> warned (snd (activate_ram e s))
                   = warned s @ (if warnmissingsimfile e then [RamflagReset] else []))
          \<and> (kind s = InputSequence \<longrightarrow> fst (activate_ram e s) = Some IOError))
       \<and> (fst (deactivate_ram s) = None \<longrightarrow>
            (kind s = Obs \<longrightarrow>
               fst (activate_disk e s) = None \<and> \<not> diskflag (fast (snd (activate_disk e s)))
               \<and> warned (snd (activate_disk e s))
                   = warned s @ (if warnmissingobsfile e then [DiskflagReset] else []))
          \<and> (kind s = Sim \<longrightarrow>
               fst (activate_disk e s) = None \<and> \<not> diskflag (fast (snd (activate_disk e s)))
               \<and> warned (snd (activate_disk e s))
                   = warned s @ (if warnmissingsimfile e then [DiskflagReset] else []))
          \<and> (kind s = InputSequence \<longrightarrow> fst (activate_disk e s) = Some IOError))"
proof (intro conjI impI)
  assume d: "fst (deactivate_disk s) = None"
  note r = IOSequence_activate_ram_missing [OF assms d]
  { assume "kind s = Obs"
    then have a: "activate_ram e s = node_activate_ram (warnmissingobsfile e) e s"
      by (simp add: activate_ram_def)
    show "fst (activate_ram e s) = None" unfolding a by (simp add: node_activate_ram_def r)
    show "\<not> ramflag (fast (snd (activate_ram e s)))"
      unfolding a by (simp add: node_activate_ram_def r set_ramflag_def)
    show "warned (snd (activate_ram e s))
            = warned s @ (if warnmissingobsfile e then [RamflagReset] else [])"
      unfolding a by (simp add: node_activate_ram_def r set_ramflag_def) }
  { assume "kind s = Sim"
    then have a: "activate_ram e s = node_activate_ram (warnmissingsimfile e) e s"
      by (simp add: activate_ram_def)
    show "fst (activate_ram e s) = None" unfolding a by (simp add: node_activate_ram_def r)
    show "\<not> ramflag (fast (snd (activate_ram e s)))"
      unfolding a by (simp add: node_activate_ram_def r set_ramflag_def)
    show "warned (snd (activate_ram e s))
            = warned s @ (if warnmissingsimfile e then [RamflagReset] else [])"
      unfolding a by (simp add: node_activate_ram_def r set_ramflag_def) }
  { assume "kind s = InputSequence"
    then show "fst (activate_ram e s) = Some IOError" by (simp add: activate_ram_def r) }
next
  assume d: "fst (deactivate_ram s) = None"
  note r = IOSequence_activate_disk_missing [OF assms d]
  { assume "kind s = Obs"
    then have a: "activate_disk e s = node_activate_disk (warnmissingobsfile e) e s"
      by (simp add: activate_disk_def)
    show "fst (activate_disk e s) = None" unfolding a by (simp add: node_activate_disk_def r)
    show "\<not> diskflag (fast (snd (activate_disk e s)))"
      unfolding a by (simp add: node_activate_disk_def r set_diskflag_def)
    show "warned (snd (activate_disk e s))
            = warned s @ (if warnmissingobsfile e then [DiskflagReset] else [])"
      unfolding a by (simp add: node_activate_disk_def r set_diskflag_def) }
  { assume "kind s = Sim"
    then have a: "activate_disk e s = node_activate_disk (warnmissingsimfile e) e s"
      by (simp add: activate_disk_def)
    show "fst (activate_disk e s) = None" unfolding a by (simp add: node_activate_disk_def r)
    show "\<not> diskflag (fast (snd (activate_disk e s)))"
      unfolding a by (simp add: node_activate_disk_def r set_diskflag_def)
    show "warned (snd (activate_disk e s))
            = warned s @ (if warnmissingsimfile e then [DiskflagReset] else [])"
      unfolding a by (simp add: node_activate_disk_def r set_diskflag_def) }
  { assume "kind s = InputSequence"
    then show "fst (activate_disk e s) = Some IOError" by (simp add: activate_disk_def r) }
qed

theorem mode_exclusivity_witness:
  "\<not> (ramflag (fast flux_ram) \<and> diskflag (fast flux_ram))
   \<and> \<not> (ramflag (fast (run_modeops [(one_day, Ram2Disk), (one_day, ActivateRam)] flux_ram))
         \<and> diskflag (fast (run_modeops [(one_day, Ram2Disk), (one_day, ActivateRam)] flux_ram)))
   \<and> \<not> ramflag (fast obs) \<and> \<not> diskflag (fast obs)
   \<and> getseries one_day obs = Inl (RuntimeError NoInternalData)"
proof -
  have 1: "\<not> (ramflag (fast flux_ram) \<and> diskflag (fast flux_ram))"
    by (simp add: flux_ram_def qma_def)
  have 2: "\<not> ramflag (fast obs) \<and> \<not> diskflag (fast obs)" by (simp add: obs_def)
  show ?thesis
    using 1 2 mode_exclusivity [of flux_ram "[(one_day, Ram2Disk), (one_day, ActivateRam)]"]
      mode_exclusivity [of obs "[]" one_day]
    by simp
qed

theorem ram2disk_disk2ram_roundtrip_witness:
  "value_fits (lengths (fast flux_ram)) (val (fast flux_ram))
   \<and> ramflag (fast flux_ram) \<and> \<not> diskflag (fast flux_ram)
   \<and> array (fast flux_ram) = Some (NDArray [1, 2] [zero, zero])
   \<and> shape (NDArray [1, 2] [zero, zero]) = seriesshape one_day flux_ram
   \<and> length (flat (NDArray [1, 2] [zero, zero])) = prod_list (shape (NDArray [1, 2] [zero, zero]))
   \<and> (\<exists>s1 s2. ram2disk one_day flux_ram = (None, s1) \<and> disk2ram one_day s1 = (None, s2)
          \<and> getseries one_day flux_ram = Inr (NDArray [1, 2] [zero, zero])
          \<and> getseries one_day s1 = Inr (NDArray [1, 2] [zero, zero])
          \<and> getseries one_day s2 = Inr (NDArray [1, 2] [zero, zero]))
   \<and> value_fits (lengths (fast flux_disk)) (val (fast flux_disk))
   \<and> diskflag (fast flux_disk) \<and> \<not> ramflag (fast flux_disk)
   \<and> getseries one_day flux_disk = Inr (NDArray [1, 2] [one, nan])
   \<and> (\<exists>t1 t2. disk2ram one_day flux_disk = (None, t1) \<and> ram2disk one_day t1 = (None, t2)
          \<and> getseries one_day t1 = Inr (NDArray [1, 2] [one, nan])
          \<and> getseries one_day t2 = Inr (NDArray [1, 2] [one, nan]))"
proof -
  let ?a = "NDArray [1, 2] [zero, zero]"
  let ?b = "NDArray [1, 2] [one, nan]"
  have ss: "seriesshape one_day flux_ram = [1, 2]" "seriesshape one_day flux_disk = [1, 2]"
    by (simp_all add: seriesshape_def one_day_def example_env_def timegrid_len_def getshape_def
          flux_ram_def flux_disk_def qma_def ndim_def)
  have hs: "value_fits (lengths (fast flux_ram)) (val (fast flux_ram))
      \<and> ramflag (fast flux_ram) \<and> \<not> diskflag (fast flux_ram) \<and> array (fast flux_ram) = Some ?a
      \<and> shape ?a = seriesshape one_day flux_ram \<and> length (flat ?a) = prod_list (shape ?a)"
    unfolding ss by (simp add: flux_ram_def qma_def value_fits_def)
  have "load_int one_day flux_disk = Inr ?b"
    by (rule load_int_packed) (simp_all add: ss, simp_all add: flux_disk_def qma_def ndim_def)
  then have ht: "value_fits (lengths (fast flux_disk)) (val (fast flux_disk))
      \<and> diskflag (fast flux_disk) \<and> \<not> ramflag (fast flux_disk)
      \<and> getseries one_day flux_disk = Inr ?b"
    by (simp add: getseries_def flux_disk_def qma_def value_fits_def)
  show ?thesis
    using hs ht ram2disk_disk2ram_roundtrip [of flux_ram ?a one_day flux_disk ?b]
    by blast
qed

theorem missing_external_file_policy_witness:
  "external (example_env False) = None
   \<and> reads_external obs \<and> kind obs = Obs \<and> fst (deactivate_disk obs) = None
   \<and> fst (activate_ram (example_env False) obs) = None
   \<and> \<not> ramflag (fast (snd (activate_ram (example_env False) obs)))
   \<and> warned (snd (activate_ram (example_env False) obs)) = [RamflagReset]
   \<and> reads_external sim_ext \<and> kind sim_ext = Sim \<and> fst (deactivate_ram sim_ext) = None
   \<and> fst (activate_disk (example_env False) sim_ext) = None
   \<and> \<not> diskflag (fast (snd (activate_disk (example_env False) sim_ext)))
   \<and> warned (snd (activate_disk (example_env False) sim_ext)) = [DiskflagReset]
   \<and> reads_external input_seq \<and> kind input_seq = InputSequence
   \<and> fst (deactivate_disk input_seq) = None
   \<and> fst (activate_ram (example_env False) input_seq) = Some IOError"
proof -
  have e: "external (example_env False) = None" by (simp add: example_env_def)
  have w: "warnmissingobsfile (example_env False)" "warnmissingsimfile (example_env False)"
    by (simp_all add: example_env_def)
  have o: "reads_external obs" "kind obs = Obs" "fst (deactivate_disk obs) = None" "warned obs = []"
    by (simp_all add: reads_external_def obs_def deactivate_disk_def)
  have s: "reads_external sim_ext" "kind sim_ext = Sim" "fst (deactivate_ram sim_ext) = None"
    "warned sim_ext = []"
    by (simp_all add: reads_external_def sim_ext_def obs_def deactivate_ram_def)
  have i: "reads_external input_seq" "kind input_seq = InputSequence"
    "fst (deactivate_disk input_seq) = None"
    by (simp_all add: reads_external_def input_seq_def obs_def deactivate_disk_def)
  show ?thesis
    using e w o s i
      missing_external_file_policy [OF e o(1)]
      missing_external_file_policy [OF e s(1)]
      missing_external_file_policy [OF e i(1)]
    by simp
qed

section \<open>Properties of the state sequences\<close>

lemma separate_connect: "separate (connect_state n v)"
  by (simp add: separate_def connect_state_def)

lemma separate_setnew: "separate st \<Longrightarrow> separate (snd (setnew v st))"
proof (cases "NDIM st = 0")
  case True
  assume "separate st"
  then show ?thesis using True
    by (cases "to_float v") (auto simp: setnew_def separate_def)
next
  case False
  assume sep: "separate st"
  show ?thesis
  proof (cases "state_shape st")
    case (Inl e)
    then show ?thesis using sep False by (simp add: setnew_def)
  next
    case (Inr sh)
    then obtain r r' a b where
      n: "fast_new st = PyArray r" "fast_old st = PyArray r'" "r \<noteq> r'"
        "r < next_addr st" "r' < next_addr st" "store st r = Some a" "store st r' = Some b"
        "shape a = shape b"
      using sep False by (auto simp: separate_def state_shape_def getnew_def deref_def)
    then have sh: "sh = shape a" using Inr False by (simp add: state_shape_def getnew_def deref_def)
    show ?thesis
    proof (cases "full_of sh v")
      case (Inl e)
      then show ?thesis using sep False Inr by (simp add: setnew_def)
    next
      case (Inr c)
      then have "shape c = shape a"
        using sh by (cases v) (auto simp: full_of_def full_def split: if_splits)
      then show ?thesis using False \<open>state_shape st = Inr sh\<close> Inr n
        by (simp add: setnew_def alloc_def separate_def)
    qed
  qed
qed

lemma separate_setold: "separate st \<Longrightarrow> separate (snd (setold v st))"
proof (cases "NDIM st = 0")
  case True
  assume "separate st"
  then show ?thesis using True
    by (cases "to_float_old v") (auto simp: setold_def separate_def)
next
  case False
  assume sep: "separate st"
  show ?thesis
  proof (cases "state_shape st")
    case (Inl e)
    then show ?thesis using sep False by (simp add: setold_def)
  next
    case (Inr sh)
    then obtain r r' a b where
      n: "fast_new st = PyArray r" "fast_old st = PyArray r'" "r \<noteq> r'"
        "r < next_addr st" "r' < next_addr st" "store st r = Some a" "store st r' = Some b"
        "shape a = shape b"
      using sep False by (auto simp: separate_def state_shape_def getnew_def deref_def)
    then have sh: "sh = shape a" using Inr False by (simp add: state_shape_def getnew_def deref_def)
    show ?thesis
    proof (cases "full_of sh v")
      case (Inl e)
      then show ?thesis using sep False Inr by (simp add: setold_def)
    next
      case (Inr c)
      then have "shape c = shape a"
        using sh by (cases v) (auto simp: full_of_def full_def split: if_splits)
      then show ?thesis using False \<open>state_shape st = Inr sh\<close> Inr n
        by (simp add: setold_def alloc_def separate_def)
    qed
  qed
qed

lemma separate_setshape: "separate st \<Longrightarrow> separate (snd (state_setshape sh st))"
proof -
  assume sep: "separate st"
  show ?thesis
  proof (cases "NDIM st = 0")
    case True
    then show ?thesis using sep separate_setnew [of st "Float zero"]
      by (simp add: state_setshape_def)
  next
    case False
    then show ?thesis using sep
      by (simp add: state_setshape_def alloc_def separate_def full_def)
  qed
qed

lemma setitem_shape: "setitem a idx v = Inr a' \<Longrightarrow> shape a' = shape a"
proof -
  assume s: "setitem a idx v = Inr a'"
  then obtain t rest where sh: "shape a = t # rest"
    by (cases "shape a") (simp_all add: setitem_def)
  from s sh obtain i where i: "py_index t idx = Inr i"
    by (cases "py_index t idx") (simp_all add: setitem_def)
  define rw where "rw = (case v of Float x \<Rightarrow> Inr (replicate (prod_list rest) x)
                       | Array b \<Rightarrow> if shape b = rest then Inr (flat b) else Inl ValueError)"
  from s sh i obtain seg where "rw = Inr seg"
    by (cases rw) (simp_all add: setitem_def rw_def Let_def)
  then show ?thesis using s sh i by (auto simp: setitem_def Let_def rw_def)
qed

lemma separate_setitem_new: "separate st \<Longrightarrow> separate (snd (setitem_at (fast_new st) idx v st))"
proof -
  assume sep: "separate st"
  show ?thesis
  proof (cases "fast_new st")
    case (PyArray r)
    then obtain r' a b where
      n: "fast_old st = PyArray r'" "r \<noteq> r'"
        "r < next_addr st" "r' < next_addr st" "store st r = Some a" "store st r' = Some b"
        "shape a = shape b" "NDIM st \<noteq> 0"
      using sep by (auto simp: separate_def split: if_splits)
    show ?thesis
    proof (cases "setitem a idx v")
      case (Inl e)
      then show ?thesis using sep PyArray n by (simp add: setitem_at_def)
    next
      case (Inr a')
      then have "shape a' = shape b" using setitem_shape n(7) by simp
      then show ?thesis using Inr PyArray n by (simp add: setitem_at_def separate_def)
    qed
  qed (use sep in \<open>simp_all add: setitem_at_def\<close>)
qed

lemma separate_setitem_old: "separate st \<Longrightarrow> separate (snd (setitem_at (fast_old st) idx v st))"
proof -
  assume sep: "separate st"
  show ?thesis
  proof (cases "fast_old st")
    case (PyArray r')
    then obtain r a b where
      n: "fast_new st = PyArray r" "r \<noteq> r'"
        "r < next_addr st" "r' < next_addr st" "store st r = Some a" "store st r' = Some b"
        "shape a = shape b" "NDIM st \<noteq> 0"
      using sep by (auto simp: separate_def split: if_splits)
    show ?thesis
    proof (cases "setitem b idx v")
      case (Inl e)
      then show ?thesis using sep PyArray n by (simp add: setitem_at_def)
    next
      case (Inr b')
      then have "shape a = shape b'" using setitem_shape n(7) by simp
      then show ?thesis using Inr PyArray n by (simp add: setitem_at_def separate_def)
    qed
  qed (use sep in \<open>simp_all add: setitem_at_def\<close>)
qed

lemma new2old_result:
  assumes sep: "separate st" and ok: "new2old st = (None, st1)"
  shows "separate st1 \<and> getold st1 = getnew st \<and> getnew st1 = getnew st"
proof (cases "NDIM st = 0")
  case True
  then obtain x y where n: "fast_new st = PyFloat x" "fast_old st = PyFloat y"
    using sep by (auto simp: separate_def)
  then have "st1 = st\<lparr>fast_old := PyFloat x\<rparr>"
    using ok True by (simp add: new2old_def getnew_def deref_def setold_def to_float_old_def)
  then show ?thesis using n True by (simp add: separate_def getold_def getnew_def deref_def)
next
  case False
  have "fast_new st \<noteq> PyNone"
    using ok False by (auto simp: new2old_def getnew_def deref_def)
  then obtain r r' a b where
    n: "fast_new st = PyArray r" "fast_old st = PyArray r'" "r \<noteq> r'"
      "r < next_addr st" "r' < next_addr st" "store st r = Some a" "store st r' = Some b"
      "shape a = shape b"
    using sep False by (auto simp: separate_def)
  have "NDArray (shape b) (flat a) = a" using n(8) by (cases a) simp
  then have "st1 = st\<lparr>store := (store st)(r' := Some a)\<rparr>"
    using ok False n by (simp add: new2old_def getnew_def deref_def setslice_all_def)
  then show ?thesis using n False by (simp add: separate_def getold_def getnew_def deref_def)
qed

lemma separate_new2old: "separate st \<Longrightarrow> separate (snd (new2old st))"
proof -
  assume sep: "separate st"
  obtain r st1 where n: "new2old st = (r, st1)" by (cases "new2old st")
  show ?thesis
  proof (cases r)
    case None
    then show ?thesis using new2old_result [OF sep] n by simp
  next
    case (Some e)
    have "st1 = st"
    proof (cases "NDIM st = 0")
      case True
      then obtain x y where "fast_new st = PyFloat x" "fast_old st = PyFloat y"
        using sep by (auto simp: separate_def)
      then show ?thesis using n Some True
        by (simp add: new2old_def getnew_def deref_def setold_def to_float_old_def)
    next
      case False
      then consider "fast_new st = PyNone" "fast_old st = PyNone"
        | r r' a b where "fast_new st = PyArray r" "fast_old st = PyArray r'"
            "store st r = Some a" "store st r' = Some b" "shape a = shape b"
        using sep by (auto simp: separate_def)
      then show ?thesis
      proof cases
        case 1
        then show ?thesis using n False by (simp add: new2old_def getnew_def deref_def)
      next
        case 2
        then show ?thesis using n False Some
          by (simp add: new2old_def getnew_def deref_def setslice_all_def)
      qed
    qed
    then show ?thesis using sep n by simp
  qed
qed

lemma separate_apply: "separate st \<Longrightarrow> separate (snd (apply_stateop c st))"
  by (cases c)
     (simp_all add: apply_stateop_def separate_setshape separate_setnew separate_setold
        separate_new2old separate_setitem_new separate_setitem_old)

lemma separate_run: "separate st \<Longrightarrow> separate (run_stateops cs st)"
  by (induction cs arbitrary: st) (simp_all add: separate_apply)

lemma getold_after_new:
  assumes sep: "separate st"
  shows "getold (snd (setnew v st)) = getold st"
    and "getold (snd (setitem_at (fast_new st) idx v st)) = getold st"
proof -
  show "getold (snd (setnew v st)) = getold st"
  proof (cases "NDIM st = 0")
    case True
    then show ?thesis
      by (cases "to_float v") (simp_all add: setnew_def getold_def deref_def split: attr.splits)
  next
    case False
    show ?thesis
    proof (cases "state_shape st")
      case (Inl e)
      then show ?thesis using False by (simp add: setnew_def)
    next
      case (Inr sh)
      then obtain r' where n: "fast_old st = PyArray r'" "r' < next_addr st"
        using sep False by (auto simp: separate_def state_shape_def getnew_def deref_def)
      then show ?thesis using False Inr
        by (cases "full_of sh v") (simp_all add: setnew_def alloc_def getold_def deref_def)
    qed
  qed
  show "getold (snd (setitem_at (fast_new st) idx v st)) = getold st"
  proof (cases "fast_new st")
    case (PyArray r)
    then obtain r' a where n: "fast_old st = PyArray r'" "r \<noteq> r'" "store st r = Some a"
      using sep by (auto simp: separate_def split: if_splits)
    then show ?thesis using PyArray
      by (cases "setitem a idx v") (simp_all add: setitem_at_def getold_def deref_def)
  qed (simp_all add: setitem_at_def)
qed

lemma new2old_returns:
  assumes sep: "separate st" and v: "fast_new st \<noteq> PyNone"
  shows "\<exists>st1. new2old st = (None, st1)"
proof (cases "NDIM st = 0")
  case True
  then obtain x y where "fast_new st = PyFloat x" "fast_old st = PyFloat y"
    using sep by (auto simp: separate_def)
  then show ?thesis using True
    by (simp add: new2old_def getnew_def deref_def setold_def to_float_old_def)
next
  case False
  then obtain r r' a b where
    "fast_new st = PyArray r" "fast_old st = PyArray r'"
    "store st r = Some a" "store st r' = Some b" "shape a = shape b"
    using sep v by (auto simp: separate_def)
  then show ?thesis using False
    by (simp add: new2old_def getnew_def deref_def setslice_all_def)
qed

text \<open>
  C7.  In every state that a state sequence reaches from \<^verbatim>\<open>connect\<close> by setting its shape,
  assigning or writing into its new and old values and calling \<^verbatim>\<open>new2old\<close>: once values
  exist, \<^verbatim>\<open>new2old\<close> returns; after it the old values equal the new ones; and neither a
  later assignment to \<^verbatim>\<open>new\<close> nor a later write into the array of \<^verbatim>\<open>new\<close> changes the old
  values, for scalar and for array-shaped sequences.
\<close>

theorem new2old_isolates:
  "(st = run_stateops cs (connect_state n v0) \<and> fast_new st \<noteq> PyNone
      \<longrightarrow> (\<exists>st'. new2old st = (None, st')))
   \<and> (st = run_stateops cs (connect_state n v0) \<and> new2old st = (None, st1)
      \<longrightarrow> getold st1 = getnew st
          \<and> getold (snd (setnew v st1)) = getold st1
          \<and> getold (snd (setitem_at (fast_new st1) idx v st1)) = getold st1)"
proof (intro conjI impI)
  assume a: "st = run_stateops cs (connect_state n v0) \<and> fast_new st \<noteq> PyNone"
  have "separate (run_stateops cs (connect_state n v0))"
    using separate_connect by (rule separate_run)
  then have "separate st" "fast_new st \<noteq> PyNone" using a by blast+
  then show "\<exists>st'. new2old st = (None, st')" by (rule new2old_returns)
next
  assume a: "st = run_stateops cs (connect_state n v0) \<and> new2old st = (None, st1)"
  have "separate (run_stateops cs (connect_state n v0))"
    using separate_connect by (rule separate_run)
  then have sep: "separate st" using a by blast
  from a have ok: "new2old st = (None, st1)" by blast
  have r: "separate st1 \<and> getold st1 = getnew st \<and> getnew st1 = getnew st"
    using sep ok by (rule new2old_result)
  then have sep1: "separate st1" by simp
  show "getold st1 = getnew st" using r by simp
  show "getold (snd (setnew v st1)) = getold st1" using sep1 by (rule getold_after_new(1))
  show "getold (snd (setitem_at (fast_new st1) idx v st1)) = getold st1"
    using sep1 by (rule getold_after_new(2))
qed

theorem new2old_isolates_witness:
  "fast_new sm \<noteq> PyNone
   \<and> fst (new2old sm) = None
   \<and> getnew sm = Inr (Array (NDArray [2] [one, nan]))
   \<and> getold (snd (new2old sm)) = Inr (Array (NDArray [2] [one, nan]))
   \<and> getnew (snd (setitem_at (fast_new (snd (new2old sm))) 0 (Float zero) (snd (new2old sm))))
        = Inr (Array (NDArray [2] [zero, nan]))
   \<and> getold (snd (setitem_at (fast_new (snd (new2old sm))) 0 (Float zero) (snd (new2old sm))))
        = Inr (Array (NDArray [2] [one, nan]))"
proof -
  have e1: "fast_new sm \<noteq> PyNone" by code_simp
  have e2: "fst (new2old sm) = None" by code_simp
  have e3: "getnew sm = Inr (Array (NDArray [2] [one, nan]))" by code_simp
  have e4: "getnew (snd (setitem_at (fast_new (snd (new2old sm))) 0 (Float zero) (snd (new2old sm))))
        = Inr (Array (NDArray [2] [zero, nan]))" by code_simp
  have ok: "new2old sm = (None, snd (new2old sm))" using e2 by (simp add: prod_eq_iff)
  show ?thesis
    using e1 e2 e3 e4 ok
      new2old_isolates [of sm "[SetShape [2], SetNew (Array (NDArray [2] [one, nan]))]" 1 nan
        "snd (new2old sm)" "Float zero" 0]
    by (simp add: sm_def)
qed

section \<open>Properties of the sequence classes\<close>

text \<open>
  C9.  For a link sequence of any dimension, reading \<^verbatim>\<open>value\<close> or \<^verbatim>\<open>values\<close>, assigning to
  them, calling the sequence with values, and reading or writing an item all raise
  \<^verbatim>\<open>NotImplementedError\<close>, and leave the sequence as it is.
\<close>

theorem link_value_not_implemented:
  assumes "seq_cls s = LinkSequence"
  shows "getvalue s = Inl NotImplementedError
         \<and> setvalue v s = (Some NotImplementedError, s)
         \<and> seq_call v s = (Some NotImplementedError, s)
         \<and> seq_getitem s key = Inl NotImplementedError
         \<and> seq_setitem key v s = (Some NotImplementedError, s)"
  using assms
  by (simp add: getvalue_def setvalue_def seq_call_def seq_getitem_def seq_setitem_def
        raiseitemexception_def LinkSequence_getvalue_def LinkSequence_setvalue_def)

theorem link_value_not_implemented_witness:
  "seq_cls outlet_q = LinkSequence
   \<and> getvalue outlet_q = Inl NotImplementedError
   \<and> setvalue (Float zero) outlet_q = (Some NotImplementedError, outlet_q)
   \<and> seq_call (Float zero) outlet_q = (Some NotImplementedError, outlet_q)
   \<and> seq_getitem outlet_q 0 = Inl NotImplementedError
   \<and> seq_setitem 0 (Float zero) outlet_q = (Some NotImplementedError, outlet_q)"
proof -
  have c: "seq_cls outlet_q = LinkSequence" by (simp add: outlet_q_def)
  show ?thesis using c link_value_not_implemented [OF c, of "Float zero" 0] by simp
qed


text \<open>
  A node sequence whose attribute is a plain float instead of its \<^verbatim>\<open>Double\<close> cell: the
  assignment of \<open>()\<close> to \<^verbatim>\<open>shape\<close> reaches \<^verbatim>\<open>NodeSequence._setvalues\<close>, whose item assignment
  raises \<^verbatim>\<open>TypeError\<close> on a float, and the value stays as it was.
\<close>

lemma setshape_node_float_raises:
  "setshape (example_env False) [] obs_loaded = (Some TypeError, obs_loaded)
   \<and> getvalue obs_loaded = Inr (Float one)"
  by (simp add: obs_loaded_def setshape_def Sequence_setshape_def setvalue_def is_node_def
        NodeSequence_setvalues_def getvalue_def Sequence_getvalue_def)



end
